theory Spec2Isabelle
  imports Complex_Main "HOL-Library.Word" "HOL-Library.AList" "HOL-Library.Log_Nat"
begin

section \<open>A proof-of-work ledger node: the socket binding and the HTTP binding\<close>

text \<open>
  The repository holds two copies of one ledger engine: \<^verbatim>\<open>blockchain.py\<close> (raw socket
  binding) and \<^verbatim>\<open>blockchain_render.py\<close> (HTTP binding). Both are embedded here; a
  definition that exists in both files with the same body is given once, a definition
  whose body differs is given twice, the HTTP one with the suffix \<open>_render\<close>.

  Modelling conventions.
  \<^item> A Python \<^verbatim>\<open>float\<close> is an IEEE 754 double: a finite value (kept as the rational it
    denotes), negative zero, an infinity or NaN. Addition and subtraction round to the
    nearest double, ties to even, with gradual underflow and overflow to infinity.
  \<^item> A number that arrives in a message or from the command line (an amount, a
    timestamp) is a Python \<^verbatim>\<open>int\<close> or a \<^verbatim>\<open>float\<close>; the two are kept apart, since
    \<^verbatim>\<open>json.dumps\<close> writes them differently. Comparison between them is exact; arithmetic
    converts the int to a double first and raises \<^verbatim>\<open>OverflowError\<close> when it is out of
    range. Indices and nonces are Python integers, hence \<open>int\<close>.
  \<^item> The library calls of the hashing code are parameters of the model, collected in a
    record \<open>lib\<close>: \<^verbatim>\<open>json.dumps(..., sort_keys=True).encode()\<close> and
    \<^verbatim>\<open>hashlib.sha256\<close>, whose result is a 256-bit digest. \<^verbatim>\<open>hexdigest\<close> is written
    out. Every theorem holds for every library.
  \<^item> \<^verbatim>\<open>time.time()\<close> is an argument \<open>now\<close> of each operation that builds a block.
  \<^item> An operation returns its outcome (a value or the exception raised) together with
    the state it leaves behind, so that a mutation before a raise stays visible.
  \<^item> \<^verbatim>\<open>save_state\<close> and \<^verbatim>\<open>broadcast\<close> (file and network output) do not touch the
    chain, the ledger, the minted total or the mempool, and are left out.
\<close>

subsection \<open>Python numbers\<close>

datatype double = Fin rat | NegZero | PosInf | NegInf | NaN

datatype pynum = PyInt int | PyFloat double

datatype error = ValueError | AttributeError | IndexError | OverflowError

datatype 'a outcome = Returned 'a | Raised error

text \<open>The exponent of the binade of a positive rational: the floor of its binary logarithm.\<close>

definition ilog2 :: "rat \<Rightarrow> int" where
  "ilog2 x = (if 1 \<le> x then bitlen \<lfloor>x\<rfloor> - 1 else - bitlen (\<lceil>1 / x\<rceil> - 1))"

definition round_half_even :: "rat \<Rightarrow> int" where
  "round_half_even q =
     (let f = \<lfloor>q\<rfloor>; r = q - of_int f
      in if r < 1 / 2 then f else if 1 / 2 < r then f + 1 else if even f then f else f + 1)"

text \<open>
  The distance between neighbouring doubles around a non-zero \<open>x\<close>: 52 binary places
  below its binade, and \<open>2 powi (- 1074)\<close> in the subnormal range.
\<close>

definition quantum :: "rat \<Rightarrow> rat" where
  "quantum x = 2 powi (max (ilog2 \<bar>x\<bar>) (- 1022) - 52)"

text \<open>
  Rounding of an exact result to a double, round-to-nearest-even: a result that rounds to
  \<open>2 ^ 1024\<close> or beyond in magnitude becomes an infinity.
\<close>

definition round_double :: "rat \<Rightarrow> double" where
  "round_double x =
     (if x = 0 then Fin 0
      else (let u = quantum x; y = of_int (round_half_even (x / u)) * u
            in if 2 ^ 1024 \<le> \<bar>y\<bar> then (if 0 < x then PosInf else NegInf)
               else if y = 0 \<and> x < 0 then NegZero
               else Fin y))"

text \<open>The value of a finite double (0 for negative zero; the other cases are not values).\<close>

fun fval :: "double \<Rightarrow> rat" where
  "fval (Fin q) = q"
| "fval _ = 0"

text \<open>\<^verbatim>\<open>x + y\<close>, \<^verbatim>\<open>-x\<close> and \<^verbatim>\<open>x - y\<close> on floats.\<close>

fun fadd :: "double \<Rightarrow> double \<Rightarrow> double" where
  "fadd NaN _ = NaN"
| "fadd _ NaN = NaN"
| "fadd PosInf NegInf = NaN"
| "fadd NegInf PosInf = NaN"
| "fadd PosInf _ = PosInf"
| "fadd _ PosInf = PosInf"
| "fadd NegInf _ = NegInf"
| "fadd _ NegInf = NegInf"
| "fadd NegZero NegZero = NegZero"
| "fadd NegZero (Fin y) = Fin y"
| "fadd (Fin x) NegZero = Fin x"
| "fadd (Fin x) (Fin y) = round_double (x + y)"

fun fneg :: "double \<Rightarrow> double" where
  "fneg (Fin q) = (if q = 0 then NegZero else Fin (- q))"
| "fneg NegZero = Fin 0"
| "fneg PosInf = NegInf"
| "fneg NegInf = PosInf"
| "fneg NaN = NaN"

definition fsub :: "double \<Rightarrow> double \<Rightarrow> double" where
  "fsub x y = fadd x (fneg y)"

text \<open>\<^verbatim>\<open>x < y\<close> and \<^verbatim>\<open>x == y\<close> on floats: false on NaN, zeros of both signs equal.\<close>

fun flt :: "double \<Rightarrow> double \<Rightarrow> bool" where
  "flt NaN _ = False"
| "flt _ NaN = False"
| "flt PosInf _ = False"
| "flt _ NegInf = False"
| "flt NegInf _ = True"
| "flt _ PosInf = True"
| "flt x y = (fval x < fval y)"

fun feq :: "double \<Rightarrow> double \<Rightarrow> bool" where
  "feq NaN _ = False"
| "feq _ NaN = False"
| "feq PosInf y = (y = PosInf)"
| "feq x PosInf = False"
| "feq NegInf y = (y = NegInf)"
| "feq x NegInf = False"
| "feq x y = (fval x = fval y)"

text \<open>
  Python compares an int with a float by value, without rounding the int: for a
  comparison the int stands for the rational it is.
\<close>

fun num_val :: "pynum \<Rightarrow> double" where
  "num_val (PyInt i) = Fin (of_int i)"
| "num_val (PyFloat d) = d"

text \<open>
  In arithmetic with a float an int is converted to the nearest double;
  \<^verbatim>\<open>OverflowError: int too large to convert to float\<close> when that is out of range.
\<close>

definition int_to_double :: "int \<Rightarrow> double" where
  "int_to_double i = round_double (of_int i)"

fun to_float :: "pynum \<Rightarrow> error + double" where
  "to_float (PyFloat d) = Inr d"
| "to_float (PyInt i) =
     (case int_to_double i of PosInf \<Rightarrow> Inl OverflowError | NegInf \<Rightarrow> Inl OverflowError
      | d \<Rightarrow> Inr d)"

text \<open>Truth value of a number: zero of either type and sign is false.\<close>

fun truthy :: "pynum \<Rightarrow> bool" where
  "truthy (PyInt i) = (i \<noteq> 0)"
| "truthy (PyFloat d) = (d \<noteq> Fin 0 \<and> d \<noteq> NegZero)"

text \<open>\<^verbatim>\<open>min(a, b)\<close>: the first argument unless the second is smaller.\<close>

definition pymin :: "double \<Rightarrow> double \<Rightarrow> double" where
  "pymin a b = (if flt b a then b else a)"

subsection \<open>Configuration\<close>

definition MAX_SUPPLY :: int where
  "MAX_SUPPLY = 21000000"

definition BLOCK_REWARD :: double where
  "BLOCK_REWARD = Fin (25 / 4)"

definition DIFFICULTY :: int where
  "DIFFICULTY = 4"

subsection \<open>Data\<close>

record tx =
  sender :: string
  recipient :: string
  amount :: pynum

record block =
  index :: int
  prev_hash :: string
  timestamp :: pynum
  transactions :: "tx list"
  nonce :: int
  hash :: string

datatype json =
    JNum pynum
  | JStr string
  | JList "json list"
  | JDict "(string \<times> json) list"

record lib =
  dumps :: "json \<Rightarrow> string"
  sha256 :: "string \<Rightarrow> 256 word"

record state =
  chain :: "block list"
  pending_tx :: "tx list"
  balances :: "(string \<times> double) list"
  total_minted :: double

subsection \<open>Block: hashing and mining\<close>

definition hexchar :: "nat \<Rightarrow> char" where
  "hexchar n = ''0123456789abcdef'' ! (n mod 16)"

text \<open>\<^verbatim>\<open>hexdigest()\<close>: the 64 hexadecimal digits of the digest, most significant first.\<close>

definition hexdigest :: "256 word \<Rightarrow> string" where
  "hexdigest w = map (\<lambda>i. hexchar (unat w div 16 ^ (63 - i))) [0..<64]"

definition tx_json :: "tx \<Rightarrow> json" where
  "tx_json t = JDict [(''sender'', JStr (sender t)), (''recipient'', JStr (recipient t)),
                      (''amount'', JNum (amount t))]"

definition compute_hash :: "lib \<Rightarrow> block \<Rightarrow> string" where
  "compute_hash L b =
     hexdigest (sha256 L (dumps L (JDict
       [(''index'', JNum (PyInt (index b))),
        (''prev_hash'', JStr (prev_hash b)),
        (''timestamp'', JNum (timestamp b)),
        (''transactions'', JList (map tx_json (transactions b))),
        (''nonce'', JNum (PyInt (nonce b)))])))"

text \<open>
  \<^verbatim>\<open>Block.__init__\<close>: \<^verbatim>\<open>timestamp or time.time()\<close> takes the clock when the argument
  is absent or falsy (zero).
\<close>

definition Block :: "lib \<Rightarrow> double \<Rightarrow> int \<Rightarrow> string \<Rightarrow> tx list \<Rightarrow> pynum option \<Rightarrow> int \<Rightarrow> block" where
  "Block L now i p txs ts n =
     (let b = \<lparr>index = i, prev_hash = p,
                timestamp = (case ts of None \<Rightarrow> PyFloat now
                             | Some t \<Rightarrow> if truthy t then t else PyFloat now),
                transactions = txs, nonce = n, hash = []\<rparr>
      in b\<lparr>hash := compute_hash L b\<rparr>)"

text \<open>\<^verbatim>\<open>str.startswith\<close>.\<close>

definition startswith :: "string \<Rightarrow> string \<Rightarrow> bool" where
  "startswith s t = (take (length t) s = t)"

text \<open>\<^verbatim>\<open>'0' * difficulty\<close>: empty for a difficulty below one.\<close>

definition target :: "int \<Rightarrow> string" where
  "target d = replicate (nat d) CHR ''0''"

definition bump :: "lib \<Rightarrow> block \<Rightarrow> block" where
  "bump L b = (let b' = b\<lparr>nonce := nonce b + 1\<rparr> in b'\<lparr>hash := compute_hash L b'\<rparr>)"

text \<open>
  \<^verbatim>\<open>Block.mine\<close> (socket binding only): the loop has no bound, so the model is a partial
  function and \<open>None\<close> stands for a search that never ends. The value is the block as
  the loop leaves it.
\<close>

partial_function (option) mine :: "lib \<Rightarrow> block \<Rightarrow> int \<Rightarrow> block option" where
  "mine L b d = (if startswith (hash b) (target d) then Some b else mine L (bump L b) d)"

subsection \<open>Ledger\<close>

text \<open>
  \<^verbatim>\<open>balances\<close> is a \<^verbatim>\<open>defaultdict(float)\<close>: reading a missing key stores \<open>0.0\<close> under it
  (\<open>touch\<close>) and yields it (\<open>balance_of\<close>).
\<close>

definition balance_of :: "(string \<times> double) list \<Rightarrow> string \<Rightarrow> double" where
  "balance_of bs a = (case map_of bs a of None \<Rightarrow> Fin 0 | Some v \<Rightarrow> v)"

definition touch :: "string \<Rightarrow> (string \<times> double) list \<Rightarrow> (string \<times> double) list" where
  "touch a bs = (case map_of bs a of None \<Rightarrow> AList.update a (Fin 0) bs | Some v \<Rightarrow> bs)"

text \<open>\<^verbatim>\<open>balances[a] += v\<close> and \<^verbatim>\<open>balances[a] -= v\<close> for a float \<open>v\<close>.\<close>

definition credit :: "string \<Rightarrow> double \<Rightarrow> (string \<times> double) list \<Rightarrow> (string \<times> double) list" where
  "credit a v bs = AList.update a (fadd (balance_of bs a) v) bs"

definition debit :: "string \<Rightarrow> double \<Rightarrow> (string \<times> double) list \<Rightarrow> (string \<times> double) list" where
  "debit a v bs = AList.update a (fsub (balance_of bs a) v) bs"

text \<open>
  One turn of the loop
  \<^verbatim>\<open>for tx in ...: balances[sender] -= amount; balances[recipient] += amount\<close>.
  The amount may be an int: when its conversion raises, the sender's entry has been read
  (and so stored, if it was missing) and nothing else has happened.
\<close>

definition apply_tx :: "(string \<times> double) list \<Rightarrow> tx \<Rightarrow> unit outcome \<times> (string \<times> double) list" where
  "apply_tx bs t =
     (case to_float (amount t) of
        Inl e \<Rightarrow> (Raised e, touch (sender t) bs)
      | Inr v \<Rightarrow> (Returned (), credit (recipient t) v (debit (sender t) v bs)))"

text \<open>The loop: it stops at the first turn that raises.\<close>

fun apply_txs :: "tx list \<Rightarrow> (string \<times> double) list \<Rightarrow> unit outcome \<times> (string \<times> double) list" where
  "apply_txs [] bs = (Returned (), bs)"
| "apply_txs (t # ts) bs =
     (case apply_tx bs t of
        (Raised e, bs') \<Rightarrow> (Raised e, bs')
      | (Returned u, bs') \<Rightarrow> apply_txs ts bs')"

text \<open>\<^verbatim>\<open>min(BLOCK_REWARD, MAX_SUPPLY - self.total_minted)\<close>.\<close>

definition reward :: "state \<Rightarrow> double" where
  "reward s = pymin BLOCK_REWARD (fsub (int_to_double MAX_SUPPLY) (total_minted s))"

subsection \<open>Blockchain operations\<close>

text \<open>\<^verbatim>\<open>create_genesis\<close> on the fresh object of \<^verbatim>\<open>__init__\<close>.\<close>

definition create_genesis :: "lib \<Rightarrow> double \<Rightarrow> state" where
  "create_genesis L now =
     \<lparr>chain = [Block L now 0 (replicate 64 CHR ''0'') [] None 0],
      pending_tx = [], balances = [], total_minted = Fin 0\<rparr>"

text \<open>
  \<^verbatim>\<open>add_transaction\<close>. Reading \<^verbatim>\<open>self.balances[sender]\<close> stores the default under a
  sender the dictionary has not seen, before the comparison. The HTTP binding returns the
  transaction; the socket binding returns nothing and sends it to the peers instead.
\<close>

definition add_transaction :: "string \<Rightarrow> string \<Rightarrow> pynum \<Rightarrow> state \<Rightarrow> tx outcome \<times> state" where
  "add_transaction sndr rcpt amt s =
     (let s1 = s\<lparr>balances := touch sndr (balances s)\<rparr>
      in if flt (balance_of (balances s1) sndr) (num_val amt) then (Raised ValueError, s1)
         else (let t = \<lparr>sender = sndr, recipient = rcpt, amount = amt\<rparr>
               in (Returned t, s1\<lparr>pending_tx := pending_tx s1 @ [t]\<rparr>)))"

text \<open>
  \<^verbatim>\<open>mine_pending\<close> of the socket binding; it returns the hash of the mined block.
  \<^verbatim>\<open>self.chain[-1]\<close> raises on an empty chain; \<open>None\<close> is a mining loop that never
  ends. When the loop over the transactions raises, the block, the reward and the turns
  before it have been committed and the mempool has not been cleared.
\<close>

definition mine_pending :: "lib \<Rightarrow> double \<Rightarrow> string \<Rightarrow> state \<Rightarrow> (string outcome \<times> state) option" where
  "mine_pending L now miner s =
     (if chain s = [] then Some (Raised IndexError, s)
      else (let last_hash = hash (last (chain s));
                blk0 = Block L now (int (length (chain s))) last_hash (pending_tx s) None 0
            in case mine L blk0 DIFFICULTY of
                 None \<Rightarrow> None
               | Some blk \<Rightarrow>
                   (let r = reward s;
                        s1 = s\<lparr>chain := chain s @ [blk],
                                balances := credit miner r (balances s),
                                total_minted := fadd (total_minted s) r\<rparr>
                    in case apply_txs (pending_tx s) (balances s1) of
                         (Raised e, bs) \<Rightarrow> Some (Raised e, s1\<lparr>balances := bs\<rparr>)
                       | (Returned u, bs) \<Rightarrow>
                           Some (Returned (hash blk), s1\<lparr>balances := bs, pending_tx := []\<rparr>))))"

text \<open>
  \<^verbatim>\<open>mine_pending\<close> of the HTTP binding: its \<^verbatim>\<open>Block\<close> class has no method \<^verbatim>\<open>mine\<close>, so
  \<^verbatim>\<open>block.mine(DIFFICULTY)\<close> raises after the block has been built and before any
  assignment to the node.
\<close>

definition mine_pending_render :: "lib \<Rightarrow> double \<Rightarrow> string \<Rightarrow> state \<Rightarrow> block outcome \<times> state" where
  "mine_pending_render L now miner s =
     (if chain s = [] then (Raised IndexError, s)
      else (let last_hash = hash (last (chain s));
                blk0 = Block L now (int (length (chain s))) last_hash (pending_tx s) None 0
            in (Raised AttributeError, s)))"

text \<open>
  \<^verbatim>\<open>is_valid_block\<close> of the socket binding: the block is rebuilt from the declared
  fields (reading the clock when the declared timestamp is falsy) and its hash and
  previous hash are compared. \<^verbatim>\<open>and\<close> evaluates \<^verbatim>\<open>self.chain[-1]\<close> only when the
  hashes agree.
\<close>

definition is_valid_block :: "lib \<Rightarrow> double \<Rightarrow> block \<Rightarrow> state \<Rightarrow> bool outcome" where
  "is_valid_block L now blk s =
     (let b = Block L now (index blk) (prev_hash blk) (transactions blk)
                (Some (timestamp blk)) (nonce blk)
      in if hash b = hash blk
         then (if chain s = [] then Raised IndexError
               else Returned (prev_hash b = hash (last (chain s))))
         else Returned False)"

text \<open>\<^verbatim>\<open>is_valid_block\<close> of the HTTP binding.\<close>

definition is_valid_block_render :: "lib \<Rightarrow> double \<Rightarrow> block \<Rightarrow> state \<Rightarrow> bool outcome" where
  "is_valid_block_render L now blk s =
     (if index blk \<noteq> int (length (chain s)) then Returned False
      else if chain s = [] then Raised IndexError
      else if prev_hash blk \<noteq> hash (last (chain s)) then Returned False
      else Returned (hash (Block L now (index blk) (prev_hash blk) (transactions blk)
                            (Some (timestamp blk)) (nonce blk)) = hash blk))"

subsection \<open>Inbound messages\<close>

datatype message = NEW_TX tx | NEW_BLOCK block | OTHER

text \<open>
  Equality of two transaction dictionaries (\<^verbatim>\<open>d not in self.pending_tx\<close>): the strings
  equal, the amounts equal as numbers.
\<close>

definition tx_eq :: "tx \<Rightarrow> tx \<Rightarrow> bool" where
  "tx_eq d t = (sender d = sender t \<and> recipient d = recipient t
                \<and> feq (num_val (amount d)) (num_val (amount t)))"

text \<open>
  The commit shared by both inbound paths: append the block, replay its transactions,
  advance the minted total, clear the mempool. When the replay raises, the block and the
  turns before the failing one stay committed; the total and the mempool are untouched.
\<close>

definition accept_block :: "block \<Rightarrow> tx list \<Rightarrow> state \<Rightarrow> unit outcome \<times> state" where
  "accept_block b txs s =
     (let s1 = s\<lparr>chain := chain s @ [b]\<rparr>
      in case apply_txs txs (balances s) of
           (Raised e, bs) \<Rightarrow> (Raised e, s1\<lparr>balances := bs\<rparr>)
         | (Returned u, bs) \<Rightarrow>
             (Returned (), s1\<lparr>balances := bs,
                               total_minted := fadd (total_minted s) (reward s),
                               pending_tx := []\<rparr>))"

text \<open>
  \<^verbatim>\<open>handler\<close> inside \<^verbatim>\<open>serve\<close> (socket binding), after the message has been decoded;
  \<open>now1\<close> and \<open>now2\<close> are the clock readings of the two \<^verbatim>\<open>Block(...)\<close> calls.
\<close>

definition handler :: "lib \<Rightarrow> double \<Rightarrow> double \<Rightarrow> message \<Rightarrow> state \<Rightarrow> unit outcome \<times> state" where
  "handler L now1 now2 msg s =
     (case msg of
        NEW_TX d \<Rightarrow>
          (if \<not> list_ex (tx_eq d) (pending_tx s)
           then (case add_transaction (sender d) (recipient d) (amount d) s of
                   (Raised e, s') \<Rightarrow> (Raised e, s')
                 | (Returned t, s') \<Rightarrow> (Returned (), s'))
           else (Returned (), s))
      | NEW_BLOCK d \<Rightarrow>
          (if index d = int (length (chain s))
           then (case is_valid_block L now1 d s of
                   Raised e \<Rightarrow> (Raised e, s)
                 | Returned False \<Rightarrow> (Returned (), s)
                 | Returned True \<Rightarrow>
                     (let blk = (Block L now2 (index d) (prev_hash d) (transactions d)
                                   (Some (timestamp d)) (nonce d))\<lparr>hash := hash d\<rparr>
                      in accept_block blk (transactions d) s))
           else (Returned (), s))
      | OTHER \<Rightarrow> (Returned (), s))"

text \<open>\<^verbatim>\<open>new_block\<close>, the route \<^verbatim>\<open>POST /block\<close> of the HTTP binding.\<close>

definition new_block :: "lib \<Rightarrow> double \<Rightarrow> double \<Rightarrow> block \<Rightarrow> state \<Rightarrow> unit outcome \<times> state" where
  "new_block L now1 now2 blk s =
     (case is_valid_block_render L now1 blk s of
        Raised e \<Rightarrow> (Raised e, s)
      | Returned False \<Rightarrow> (Returned (), s)
      | Returned True \<Rightarrow>
          accept_block (Block L now2 (index blk) (prev_hash blk) (transactions blk)
                          (Some (timestamp blk)) (nonce blk))
                       (transactions blk) s)"

subsection \<open>Reachable states\<close>

text \<open>
  The states a node of the socket binding can be in: the genesis state, and whatever
  submit-transaction, mine-pending and an inbound message make of a reachable state.
\<close>

inductive reachable :: "lib \<Rightarrow> state \<Rightarrow> bool" for L :: lib where
  r_genesis: "reachable L (create_genesis L now)"
| r_submit: "reachable L s \<Longrightarrow> add_transaction a b v s = (r, s') \<Longrightarrow> reachable L s'"
| r_mine: "reachable L s \<Longrightarrow> mine_pending L now m s = Some (r', s') \<Longrightarrow> reachable L s'"
| r_inbound: "reachable L s \<Longrightarrow> handler L now1 now2 msg s = (r'', s') \<Longrightarrow> reachable L s'"

text \<open>The same for the HTTP binding.\<close>

inductive reachable_render :: "lib \<Rightarrow> state \<Rightarrow> bool" for L :: lib where
  rr_genesis: "reachable_render L (create_genesis L now)"
| rr_submit: "reachable_render L s \<Longrightarrow> add_transaction a b v s = (r, s') \<Longrightarrow> reachable_render L s'"
| rr_mine: "reachable_render L s \<Longrightarrow> mine_pending_render L now m s = (r', s') \<Longrightarrow> reachable_render L s'"
| rr_inbound: "reachable_render L s \<Longrightarrow> new_block L now1 now2 blk s = (r'', s') \<Longrightarrow> reachable_render L s'"

subsection \<open>A small library instance for running the model\<close>

text \<open>
  The theorems below hold for every library. To run the model on a concrete input some
  library has to be fixed; this one is chosen to be easy to follow by hand. The encoder
  writes an integer \<open>n\<close> as \<open>n\<close> strokes, a float as one letter, a string as itself and
  concatenates the values of lists and dictionaries; the digest carries the length of
  the encoded text modulo 4 in its two leading bits. A digest therefore starts with
  four zero digits exactly when that length is a multiple of 4.
\<close>

primrec demo_dumps :: "json \<Rightarrow> string" where
  "demo_dumps (JNum n) = (case n of PyInt i \<Rightarrow> replicate (nat i) CHR ''1'' | PyFloat d \<Rightarrow> ''n'')"
| "demo_dumps (JStr s) = s"
| "demo_dumps (JList js) = concat (map demo_dumps js)"
| "demo_dumps (JDict kvs) = concat (map (\<lambda>kv. snd kv) (map (map_prod id demo_dumps) kvs))"

definition demo_sha256 :: "string \<Rightarrow> 256 word" where
  "demo_sha256 s = push_bit 254 (of_nat (length s mod 4))"

definition demo :: lib where
  "demo = \<lparr>dumps = demo_dumps, sha256 = demo_sha256\<rparr>"

text \<open>The length of the text the encoder of the instance produces for a block.\<close>

fun num_len :: "pynum \<Rightarrow> nat" where
  "num_len (PyInt i) = nat i"
| "num_len (PyFloat d) = 1"

definition demo_len :: "block \<Rightarrow> nat" where
  "demo_len b = nat (index b) + length (prev_hash b) + num_len (timestamp b)
      + sum_list (map (\<lambda>t. length (sender t) + length (recipient t) + num_len (amount t))
                      (transactions b))
      + nat (nonce b)"

subsection \<open>Derived quantities\<close>

text \<open>
  The sum of all balances of the ledger, as the exact sum of the values stored; an
  addition of two floats that is finite and does not round; a replay of transactions in
  which no conversion raises and no addition rounds.
\<close>

definition ledger_sum :: "state \<Rightarrow> rat" where
  "ledger_sum s = sum_list (map (\<lambda>kv. fval (snd kv)) (balances s))"

fun is_finite :: "double \<Rightarrow> bool" where
  "is_finite (Fin q) = True"
| "is_finite NegZero = True"
| "is_finite _ = False"

definition exact_add :: "double \<Rightarrow> double \<Rightarrow> bool" where
  "exact_add x y = (is_finite x \<and> is_finite y \<and> is_finite (fadd x y)
                    \<and> fval (fadd x y) = fval x + fval y)"

fun exact_txs :: "tx list \<Rightarrow> (string \<times> double) list \<Rightarrow> bool" where
  "exact_txs [] bs = True"
| "exact_txs (t # ts) bs =
     (case to_float (amount t) of
        Inl e \<Rightarrow> False
      | Inr v \<Rightarrow> exact_add (balance_of bs (sender t)) (fneg v)
               \<and> exact_add (balance_of (debit (sender t) v bs) (recipient t)) v
               \<and> exact_txs ts (credit (recipient t) v (debit (sender t) v bs)))"

text \<open>
  The shape of a chain: a genesis block at position 0 and every later
  block numbered by its position and linked to the hash of the block before it.
\<close>

definition chain_ok :: "block list \<Rightarrow> bool" where
  "chain_ok c =
     (c \<noteq> [] \<and> index (c ! 0) = 0 \<and> prev_hash (c ! 0) = replicate 64 CHR ''0''
      \<and> transactions (c ! 0) = []
      \<and> (\<forall>i \<in> {1..<length c}. index (c ! i) = int i \<and> prev_hash (c ! i) = hash (c ! (i - 1))))"

subsection \<open>A sample run on the instance\<close>

text \<open>
  The genesis state built at clock 5; the same state with the minted total two below the
  cap; the block \<open>mine_pending\<close> finds on top of the genesis block at clock 6 (its first
  hash with four leading zeros is at nonce 2); and a block on top of the genesis block
  that is consistent (index, previous hash and declared hash are right) and whose hash
  \<open>8000...\<close> has no leading zero.
\<close>

definition demo_genesis :: state where
  "demo_genesis = create_genesis demo (Fin 5)"

definition demo_near_cap :: state where
  "demo_near_cap = demo_genesis\<lparr>total_minted := Fin (of_int MAX_SUPPLY - 2)\<rparr>"

definition demo_block1 :: block where
  "demo_block1 = \<lparr>index = 1, prev_hash = CHR ''4'' # replicate 63 CHR ''0'',
                   timestamp = PyFloat (Fin 6), transactions = [], nonce = 2,
                   hash = replicate 64 CHR ''0''\<rparr>"

definition demo_block_weak :: block where
  "demo_block_weak = \<lparr>index = 1, prev_hash = CHR ''4'' # replicate 63 CHR ''0'',
                       timestamp = PyFloat (Fin 6), transactions = [], nonce = 0,
                       hash = CHR ''8'' # replicate 63 CHR ''0''\<rparr>"

text \<open>
  The run continued: A has mined \<open>demo_block1\<close> and holds 6.25 (\<open>demo_s1\<close>); A submits 0.1
  and 0.3 to B, both as floats (\<open>demo_s2\<close>); M mines them at clock 7 into \<open>demo_block2\<close>
  (\<open>demo_s3\<close>); B mines an empty block at clock 8 (\<open>demo_s4\<close>). The doubles are written as
  the rationals they denote: 0.1 is \<open>3602879701896397 / 2 ^ 55\<close>, 0.3 is
  \<open>5404319552844595 / 2 ^ 54\<close>, and the balances are what Python prints as
  5.8500000000000005, 0.4 and 6.65.
\<close>

definition d01 :: double where
  "d01 = Fin (3602879701896397 / 36028797018963968)"

definition d03 :: double where
  "d03 = Fin (5404319552844595 / 18014398509481984)"

definition demo_tx1 :: tx where
  "demo_tx1 = \<lparr>sender = ''A'', recipient = ''B'', amount = PyFloat d01\<rparr>"

definition demo_tx2 :: tx where
  "demo_tx2 = \<lparr>sender = ''A'', recipient = ''B'', amount = PyFloat d03\<rparr>"

definition demo_s1 :: state where
  "demo_s1 = \<lparr>chain = chain demo_genesis @ [demo_block1], pending_tx = [],
               balances = [(''A'', Fin (25 / 4))], total_minted = Fin (25 / 4)\<rparr>"

definition demo_s2 :: state where
  "demo_s2 = demo_s1\<lparr>pending_tx := [demo_tx1, demo_tx2]\<rparr>"

definition demo_block2 :: block where
  "demo_block2 = \<lparr>index = 2, prev_hash = replicate 64 CHR ''0'',
                   timestamp = PyFloat (Fin 7), transactions = [demo_tx1, demo_tx2], nonce = 3,
                   hash = replicate 64 CHR ''0''\<rparr>"

definition demo_s3 :: state where
  "demo_s3 = \<lparr>chain = chain demo_genesis @ [demo_block1, demo_block2], pending_tx = [],
               balances = [(''A'', Fin (6586514455029351 / 1125899906842624)),
                           (''M'', Fin (25 / 4)),
                           (''B'', Fin (3602879701896397 / 9007199254740992))],
               total_minted = Fin (25 / 2)\<rparr>"

definition demo_block3 :: block where
  "demo_block3 = \<lparr>index = 3, prev_hash = replicate 64 CHR ''0'',
                   timestamp = PyFloat (Fin 8), transactions = [], nonce = 0,
                   hash = replicate 64 CHR ''0''\<rparr>"

definition demo_s4 :: state where
  "demo_s4 = \<lparr>chain = chain demo_genesis @ [demo_block1, demo_block2, demo_block3],
               pending_tx = [],
               balances = [(''A'', Fin (6586514455029351 / 1125899906842624)),
                           (''M'', Fin (25 / 4)),
                           (''B'', Fin (3743617190251725 / 562949953421312))],
               total_minted = Fin (75 / 4)\<rparr>"

section \<open>Properties\<close>

subsection \<open>Rounding to a double\<close>

lemma pow_nat_powi: "0 \<le> b \<Longrightarrow> (2::rat) ^ nat b = 2 powi b"
  by (simp add: power_int_def)

lemma ilog2_bounds:
  assumes "0 < x"
  shows "2 powi (ilog2 x) \<le> x \<and> x < 2 powi (ilog2 x + 1)"
proof (cases "1 \<le> x")
  case True
  define n where "n = \<lfloor>x\<rfloor>"
  have n1: "1 \<le> n" using True by (simp add: n_def le_floor_iff)
  then have n0: "0 < n" by simp
  define b where "b = bitlen n"
  have b1: "1 \<le> b" using n0 by (simp add: b_def bitlen_alt_def)
  from bitlen_bounds [OF n0] have lo: "2 ^ nat (b - 1) \<le> n" and hi: "n < 2 ^ nat b"
    by (simp_all add: b_def)
  from hi have hi': "n + 1 \<le> 2 ^ nat b" by simp
  have c1: "(of_int n :: rat) \<le> x" by (simp add: n_def)
  have c2: "x < of_int n + 1" unfolding n_def by linarith
  have "(of_int (2 ^ nat (b - 1)) :: rat) \<le> of_int n" using lo by (simp only: of_int_le_iff)
  then have c3: "(2::rat) ^ nat (b - 1) \<le> of_int n" by simp
  have "(of_int (n + 1) :: rat) \<le> of_int (2 ^ nat b)" using hi' by (simp only: of_int_le_iff)
  then have c4: "(of_int n :: rat) + 1 \<le> 2 ^ nat b" by simp
  from c1 c2 c3 c4 have "(2::rat) ^ nat (b - 1) \<le> x" "x < (2::rat) ^ nat b" by linarith+
  then have "2 powi (b - 1) \<le> x" "x < 2 powi b"
    using b1 by (simp_all add: pow_nat_powi [symmetric])
  moreover have "ilog2 x = b - 1" using True by (simp add: ilog2_def b_def n_def)
  ultimately show ?thesis by simp
next
  case False
  then have x1: "x < 1" by simp
  define y where "y = 1 / x"
  have y1: "1 < y" using assms x1 by (simp add: y_def)
  define m where "m = \<lceil>y\<rceil> - 1"
  have m1: "1 \<le> m" using y1 unfolding m_def by linarith
  then have m0: "0 < m" by simp
  define b where "b = bitlen m"
  have b1: "1 \<le> b" using m0 by (simp add: b_def bitlen_alt_def)
  from bitlen_bounds [OF m0] have lo: "2 ^ nat (b - 1) \<le> m" and hi: "m < 2 ^ nat b"
    by (simp_all add: b_def)
  from hi have hi': "m + 1 \<le> 2 ^ nat b" by simp
  have c1: "(of_int m :: rat) < y" unfolding m_def by linarith
  have c2: "y \<le> of_int m + 1" unfolding m_def by simp
  have "(of_int (2 ^ nat (b - 1)) :: rat) \<le> of_int m" using lo by (simp only: of_int_le_iff)
  then have c3: "(2::rat) ^ nat (b - 1) \<le> of_int m" by simp
  have "(of_int (m + 1) :: rat) \<le> of_int (2 ^ nat b)" using hi' by (simp only: of_int_le_iff)
  then have c4: "(of_int m :: rat) + 1 \<le> 2 ^ nat b" by simp
  from c1 c2 c3 c4 have "(2::rat) ^ nat (b - 1) < y" "y \<le> (2::rat) ^ nat b" by linarith+
  then have yb: "2 powi (b - 1) < y" "y \<le> 2 powi b"
    using b1 by (simp_all add: pow_nat_powi [symmetric])
  have xy: "x = 1 / y" using assms by (simp add: y_def)
  have "2 powi (- b) \<le> x"
  proof -
    have "1 / (2 powi b) \<le> 1 / y" using yb(2) y1 by (intro divide_left_mono) simp_all
    then show ?thesis by (simp add: xy power_int_minus field_simps)
  qed
  moreover have "x < 2 powi (- b + 1)"
  proof -
    have "0 < (2::rat) powi (b - 1)" by simp
    moreover have "0 < y" using y1 by simp
    ultimately have "1 / y < 1 / (2 powi (b - 1))" using yb(1)
      by (intro divide_strict_left_mono) simp_all
    moreover have "1 / ((2::rat) powi (b - 1)) = 2 powi (- b + 1)"
      using power_int_minus_divide [of "2::rat" "b - 1"] by simp
    ultimately show ?thesis by (simp add: xy)
  qed
  moreover have "ilog2 x = - b" using False by (simp add: ilog2_def b_def m_def y_def)
  ultimately show ?thesis by simp
qed

lemma powi2_less_imp: "(2::rat) powi a < 2 powi b \<Longrightarrow> a < b"
proof (rule ccontr)
  assume lt: "(2::rat) powi a < 2 powi b" and "\<not> a < b"
  then have "b \<le> a" by simp
  then have "(2::rat) powi b \<le> 2 powi a" by (rule power_int_increasing) simp
  with lt show False by simp
qed

lemma ilog2_unique:
  assumes "2 powi e \<le> x" and "x < 2 powi (e + 1)"
  shows "ilog2 x = e"
proof -
  have x0: "0 < x" using assms(1) by (rule less_le_trans [rotated]) simp
  from ilog2_bounds [OF x0] have b: "2 powi (ilog2 x) \<le> x" "x < 2 powi (ilog2 x + 1)" by simp_all
  have "(2::rat) powi e < 2 powi (ilog2 x + 1)" using assms(1) b(2) by simp
  then have "e < ilog2 x + 1" by (rule powi2_less_imp)
  moreover have "(2::rat) powi (ilog2 x) < 2 powi (e + 1)" using assms(2) b(1) by simp
  then have "ilog2 x < e + 1" by (rule powi2_less_imp)
  ultimately show ?thesis by simp
qed


lemma round_half_even_of_int: "round_half_even (of_int m) = m"
  by (simp add: round_half_even_def)

lemma round_double_binade:
  assumes "2 powi e \<le> \<bar>x\<bar>" and "\<bar>x\<bar> < 2 powi (e + 1)" and "- 1022 \<le> e"
  shows "round_double x =
     (let u = 2 powi (e - 52); y = of_int (round_half_even (x / u)) * u
      in if 2 ^ 1024 \<le> \<bar>y\<bar> then (if 0 < x then PosInf else NegInf)
         else if y = 0 \<and> x < 0 then NegZero
         else Fin y)"
proof -
  have "\<not> 2 powi e \<le> (0::rat)" by (simp add: not_le)
  with assms(1) have x0: "x \<noteq> 0" by auto
  have "ilog2 \<bar>x\<bar> = e" using assms(1,2) by (rule ilog2_unique)
  with assms(3) have "quantum x = 2 powi (e - 52)" by (simp add: quantum_def max_def)
  with x0 show ?thesis by (simp add: round_double_def)
qed

lemma round_double_eval:
  assumes "2 powi e \<le> \<bar>x\<bar>" and "\<bar>x\<bar> < 2 powi (e + 1)" and "- 1022 \<le> e"
    and "u = 2 powi (e - 52)" and "round_half_even (x / u) = n"
    and "\<bar>of_int n * u\<bar> < 2 ^ 1024" and "n \<noteq> 0"
  shows "round_double x = Fin (of_int n * u)"
  using assms(4-7) unfolding round_double_binade [OF assms(1-3)] by (simp add: Let_def)

lemma round_double_grid:
  assumes "\<bar>k\<bar> < 2 ^ 53"
  shows "round_double (of_int k / 4) = Fin (of_int k / 4)"
proof (cases "k = 0")
  case True
  then show ?thesis by (simp add: round_double_def)
next
  case False
  define x :: rat where "x = of_int k / 4"
  have k1: "1 \<le> \<bar>k\<bar>" using False by simp
  have ax: "\<bar>x\<bar> = of_int \<bar>k\<bar> / 4" by (simp add: x_def)
  have "(1::rat) \<le> of_int \<bar>k\<bar>" using k1 by (simp only: of_int_1_le_iff)
  then have lo: "2 powi (- 2) \<le> \<bar>x\<bar>" unfolding ax by (simp add: power_int_minus_divide)
  have "(of_int \<bar>k\<bar> :: rat) < of_int (2 ^ 53)" using assms by (simp only: of_int_less_iff)
  then have hi: "\<bar>x\<bar> < 2 powi 51" unfolding ax by simp
  have x0: "0 < \<bar>x\<bar>" using lo by (rule less_le_trans [rotated]) simp
  define e where "e = ilog2 \<bar>x\<bar>"
  from ilog2_bounds [OF x0] have b: "2 powi e \<le> \<bar>x\<bar>" "\<bar>x\<bar> < 2 powi (e + 1)"
    by (simp_all add: e_def)
  have "(2::rat) powi (- 2) < 2 powi (e + 1)" using lo b(2) by simp
  then have e1: "- 2 \<le> e" using powi2_less_imp by fastforce
  have "(2::rat) powi e < 2 powi 51" using hi b(1) by simp
  then have e2: "e \<le> 50" using powi2_less_imp by fastforce
  define u :: rat where "u = 2 powi (e - 52)"
  have u0: "u \<noteq> 0" by (simp add: u_def)
  have "1 / u = 2 powi (52 - e)"
    using power_int_minus_divide [of "2::rat" "e - 52"] by (simp add: u_def)
  also have "\<dots> = 2 powi 2 * 2 powi (50 - e)"
    using power_int_add [of "2::rat" 2 "50 - e"] by simp
  also have "\<dots> = 4 * 2 ^ nat (50 - e)"
    using e2 by (simp add: power_int_def)
  finally have iu: "1 / u = 4 * 2 ^ nat (50 - e)" .
  have "x / u = x * (1 / u)" by simp
  also have "\<dots> = of_int (k * 2 ^ nat (50 - e))" unfolding iu by (simp add: x_def)
  finally have "x / u = of_int (k * 2 ^ nat (50 - e))" .
  then have r: "round_half_even (x / u) = k * 2 ^ nat (50 - e)"
    by (simp only: round_half_even_of_int)
  have y: "of_int (k * 2 ^ nat (50 - e)) * u = x"
    using \<open>x / u = of_int (k * 2 ^ nat (50 - e))\<close> u0 by (simp add: field_simps)
  have big: "\<bar>x\<bar> < 2 ^ 1024"
  proof -
    have "(2::rat) powi 51 \<le> 2 powi 1024" by (rule power_int_increasing) simp_all
    with hi show ?thesis by simp
  qed
  have "round_double x = Fin (of_int (k * 2 ^ nat (50 - e)) * u)"
    using b e1 r
  proof (intro round_double_eval [where e = e])
    show "\<bar>rat_of_int (k * 2 ^ nat (50 - e)) * u\<bar> < 2 ^ 1024" unfolding y by (rule big)
    show "k * 2 ^ nat (50 - e) \<noteq> 0" using False by simp
  qed (simp_all add: u_def)
  then show ?thesis unfolding y by (simp add: x_def)
qed

lemma floor_rat_numeral:
  "\<lfloor>(numeral a :: rat) / numeral b\<rfloor> = numeral a div numeral b"
  using floor_divide_of_int_eq [of "numeral a" "numeral b", where ?'a = rat] by simp
subsection \<open>Arithmetic on quarters\<close>

text \<open>
  Multiples of a quarter below \<open>2 ^ 51\<close> are doubles, and sums and differences of them
  are computed without rounding: the minted total moves on this grid.
\<close>

lemma fadd_grid:
  assumes "\<bar>a + b\<bar> < 2 ^ 53"
  shows "fadd (Fin (of_int a / 4)) (Fin (of_int b / 4)) = Fin (of_int (a + b) / 4)"
proof -
  have "(of_int a / 4 + of_int b / 4 :: rat) = of_int (a + b) / 4" by simp
  then have "fadd (Fin (of_int a / 4)) (Fin (of_int b / 4)) = round_double (of_int (a + b) / 4)"
    by (simp only: fadd.simps)
  then show ?thesis by (simp only: round_double_grid [OF assms])
qed

lemma fsub_grid:
  assumes "\<bar>a - b\<bar> < 2 ^ 53"
  shows "fsub (Fin (of_int a / 4)) (Fin (of_int b / 4)) = Fin (of_int (a - b) / 4)"
proof (cases "b = 0")
  case True
  then show ?thesis by (simp add: fsub_def)
next
  case False
  have "(of_int a / 4 + - (of_int b / 4) :: rat) = of_int (a - b) / 4" by simp
  moreover have "fneg (Fin (of_int b / 4)) = Fin (- (of_int b / 4))" using False by simp
  ultimately have "fsub (Fin (of_int a / 4)) (Fin (of_int b / 4)) = round_double (of_int (a - b) / 4)"
    by (simp only: fsub_def fadd.simps)
  then show ?thesis by (simp only: round_double_grid [OF assms])
qed

lemma int_to_double_MAX_SUPPLY: "int_to_double MAX_SUPPLY = Fin (of_int MAX_SUPPLY)"
proof -
  have "round_double (of_int (4 * MAX_SUPPLY) / 4) = Fin (of_int (4 * MAX_SUPPLY) / 4)"
    by (rule round_double_grid) (simp add: MAX_SUPPLY_def)
  then show ?thesis by (simp add: int_to_double_def)
qed

lemma reward_grid:
  assumes "total_minted s = Fin (of_int k / 4)" and "0 \<le> k" and "k \<le> 4 * MAX_SUPPLY"
  shows "reward s = Fin (min (25 / 4) (of_int MAX_SUPPLY - of_int k / 4))"
    and "fadd (total_minted s) (reward s)
           = Fin (of_int k / 4 + min (25 / 4) (of_int MAX_SUPPLY - of_int k / 4))"
proof -
  have "fsub (Fin (of_int (4 * MAX_SUPPLY) / 4)) (Fin (of_int k / 4))
          = Fin (of_int (4 * MAX_SUPPLY - k) / 4)"
    using assms(2,3) by (intro fsub_grid) (simp add: MAX_SUPPLY_def)
  then have d: "fsub (int_to_double MAX_SUPPLY) (total_minted s)
                  = Fin (of_int MAX_SUPPLY - of_int k / 4)"
    by (simp add: int_to_double_MAX_SUPPLY assms(1) diff_divide_distrib)
  show r: "reward s = Fin (min (25 / 4) (of_int MAX_SUPPLY - of_int k / 4))"
    unfolding reward_def d by (simp add: pymin_def BLOCK_REWARD_def min_def)
  show "fadd (total_minted s) (reward s)
           = Fin (of_int k / 4 + min (25 / 4) (of_int MAX_SUPPLY - of_int k / 4))"
  proof (cases "(25 / 4 :: rat) \<le> of_int MAX_SUPPLY - of_int k / 4")
    case True
    then have "(of_int k :: rat) \<le> of_int (4 * MAX_SUPPLY - 25)" by (simp add: field_simps)
    then have "k \<le> 4 * MAX_SUPPLY - 25" by (simp only: of_int_le_iff)
    with assms(2) have "fadd (Fin (of_int k / 4)) (Fin (of_int 25 / 4)) = Fin (of_int (k + 25) / 4)"
      by (intro fadd_grid) (simp add: MAX_SUPPLY_def)
    with True show ?thesis unfolding r assms(1) by (simp add: min_def add_divide_distrib)
  next
    case False
    have "fadd (Fin (of_int k / 4)) (Fin (of_int (4 * MAX_SUPPLY - k) / 4))
            = Fin (of_int (k + (4 * MAX_SUPPLY - k)) / 4)"
      by (intro fadd_grid) (simp add: MAX_SUPPLY_def)
    with False show ?thesis unfolding r assms(1)
      by (simp add: min_def diff_divide_distrib)
  qed
qed

subsection \<open>The roundings of the sample run\<close>

lemma run_A1: "fsub (Fin (25 / 4)) d01 = Fin (3462142213541069 / 562949953421312)"
proof -
  have "round_double (25 / 4 + - (3602879701896397 / 36028797018963968))
          = Fin (of_int 6924284427082138 * (1 / 1125899906842624))"
    by (rule round_double_eval [where e = 2])
       (simp_all add: round_half_even_def Let_def power_int_minus_divide floor_rat_numeral)
  then show ?thesis by (simp add: fsub_def d01_def)
qed

lemma run_B1: "fadd (Fin 0) d01 = d01"
proof -
  have "round_double (3602879701896397 / 36028797018963968)
          = Fin (of_int 7205759403792794 * (1 / 72057594037927936))"
    by (rule round_double_eval [where e = "- 4"])
       (simp_all add: round_half_even_def Let_def power_int_minus_divide floor_rat_numeral)
  then show ?thesis by (simp add: d01_def)
qed

lemma run_A2:
  "fsub (Fin (3462142213541069 / 562949953421312)) d03
     = Fin (6586514455029351 / 1125899906842624)"
proof -
  have "round_double (3462142213541069 / 562949953421312 + - (5404319552844595 / 18014398509481984))
          = Fin (of_int 6586514455029351 * (1 / 1125899906842624))"
    by (rule round_double_eval [where e = 2])
       (simp_all add: round_half_even_def Let_def power_int_minus_divide floor_rat_numeral)
  then show ?thesis by (simp add: fsub_def d03_def)
qed

lemma run_B2: "fadd d01 d03 = Fin (3602879701896397 / 9007199254740992)"
proof -
  have "round_double (3602879701896397 / 36028797018963968 + 5404319552844595 / 18014398509481984)
          = Fin (of_int 7205759403792794 * (1 / 18014398509481984))"
    by (rule round_double_eval [where e = "- 2"])
       (simp_all add: round_half_even_def Let_def power_int_minus_divide floor_rat_numeral)
  then show ?thesis by (simp add: d01_def d03_def)
qed

lemma run_B3:
  "fadd (Fin (3602879701896397 / 9007199254740992)) (Fin (25 / 4))
     = Fin (3743617190251725 / 562949953421312)"
proof -
  have "round_double (3602879701896397 / 9007199254740992 + 25 / 4)
          = Fin (of_int 7487234380503450 * (1 / 1125899906842624))"
    by (rule round_double_eval [where e = 2])
       (simp_all add: round_half_even_def Let_def power_int_minus_divide floor_rat_numeral)
  then show ?thesis by simp
qed

lemma run_reward: "fadd (Fin 0) (Fin (25 / 4)) = Fin (25 / 4)"
  using fadd_grid [of 0 25] by simp
subsection \<open>Digests of the library instance\<close>

lemma unat_demo_sha256: "unat (demo_sha256 s) = (length s mod 4) * 4 * 16 ^ 63"
proof -
  let ?k = "length s mod 4"
  have k: "?k < 4" by simp
  have "?k * 2 ^ 254 < 4 * 2 ^ 254" using k by (simp del: mod_less_divisor)
  then have lt: "?k * 2 ^ 254 < (2::nat) ^ 256" by simp
  have "unat (demo_sha256 s) = take_bit 256 (push_bit 254 (unat (of_nat ?k :: 256 word)))"
    by (simp add: demo_sha256_def unsigned_push_bit_eq)
  also have "unat (of_nat ?k :: 256 word) = ?k"
    using k by (simp add: unat_of_nat del: mod_less_divisor)
  also have "take_bit 256 (push_bit 254 ?k) = ?k * 2 ^ 254"
    using lt by (simp add: push_bit_eq_mult take_bit_nat_eq_self del: mod_less_divisor)
  also have "(2::nat) ^ 254 = 4 * 16 ^ 63" by simp
  finally show ?thesis by simp
qed

lemma hexchar_mult16: "hexchar (16 * n) = CHR ''0''"
  by (simp add: hexchar_def)

lemma hexdigest_demo:
  "hexdigest (demo_sha256 s) = hexchar (4 * (length s mod 4)) # replicate 63 CHR ''0''"
proof -
  define k where "k = length s mod 4"
  define u where "u = k * 4 * 16 ^ 63"
  have uw: "unat (demo_sha256 s) = u"
    unfolding u_def k_def by (rule unat_demo_sha256)
  have split: "[0..<64] = 0 # map Suc [0..<63]"
    by (simp add: map_Suc_upt upt_conv_Cons)
  have tail: "hexchar (u div 16 ^ (62 - j)) = CHR ''0''" if "j < 63" for j
  proof -
    have "(16::nat) ^ 63 = 16 ^ (Suc j) * 16 ^ (62 - j)"
      using that by (simp add: power_add [symmetric] del: power_Suc)
    then have "u = (k * 4 * 16 ^ Suc j) * 16 ^ (62 - j)"
      unfolding u_def by (simp only: mult.assoc)
    then have "u div 16 ^ (62 - j) = k * 4 * 16 ^ Suc j"
      by (metis nonzero_mult_div_cancel_right power_not_zero zero_neq_numeral)
    then have "u div 16 ^ (62 - j) = 16 * (k * 4 * 16 ^ j)" by simp
    then show ?thesis by (simp only: hexchar_mult16)
  qed
  have "map (\<lambda>i. hexchar (u div 16 ^ (63 - i))) (map Suc [0..<63]) = map (\<lambda>j. CHR ''0'') [0..<63]"
    unfolding map_map by (rule map_cong) (simp_all add: tail del: power_Suc)
  then have rest: "map (\<lambda>i. hexchar (u div 16 ^ (63 - i))) (map Suc [0..<63]) = replicate 63 CHR ''0''"
    by (simp add: map_replicate_const)
  have "u div 16 ^ 63 = 4 * k"
    unfolding u_def by (simp only: nonzero_mult_div_cancel_right power_not_zero zero_neq_numeral mult.commute [of k 4] not_False_eq_True)
  then have first: "hexchar (u div 16 ^ (63 - 0)) = hexchar (4 * k)"
    by (simp only: diff_zero)
  show ?thesis
    unfolding hexdigest_def uw split list.map rest first k_def ..
qed


lemma length_demo_dumps_num: "length (demo_dumps (JNum n)) = num_len n"
  by (cases n) simp_all

lemma length_concat_tx_json:
  "length (concat (map (demo_dumps \<circ> tx_json) txs))
     = sum_list (map (\<lambda>t. length (sender t) + length (recipient t) + num_len (amount t)) txs)"
  by (induction txs) (simp_all add: tx_json_def length_demo_dumps_num del: demo_dumps.simps(1))

lemma compute_hash_demo:
  "compute_hash demo b = hexchar (4 * (demo_len b mod 4)) # replicate 63 CHR ''0''"
proof -
  have "length (dumps demo (JDict
       [(''index'', JNum (PyInt (index b))),
        (''prev_hash'', JStr (prev_hash b)),
        (''timestamp'', JNum (timestamp b)),
        (''transactions'', JList (map tx_json (transactions b))),
        (''nonce'', JNum (PyInt (nonce b)))])) = demo_len b"
    using length_demo_dumps_num [of "timestamp b"] length_demo_dumps_num [of "PyInt (index b)"]
      length_demo_dumps_num [of "PyInt (nonce b)"]
    by (simp add: demo_def demo_len_def length_concat_tx_json del: demo_dumps.simps(1))
  then show ?thesis
    by (simp add: compute_hash_def demo_def hexdigest_demo)
qed

lemma replicate_64: "replicate 64 c = c # replicate 63 c"
proof -
  have "(64::nat) = Suc 63" by simp
  then show ?thesis by (simp only: replicate_Suc)
qed

lemma startswith_target4:
  "startswith (c # replicate 63 CHR ''0'') (target 4) = (c = CHR ''0'')"
  by (simp add: startswith_def target_def eval_nat_numeral)

subsection \<open>Mining\<close>

lemma mine_result:
  assumes "mine L b d = Some b'"
  shows "startswith (hash b') (target d) \<and> index b' = index b \<and> prev_hash b' = prev_hash b
         \<and> timestamp b' = timestamp b \<and> transactions b' = transactions b"
proof (rule mine.raw_induct [where P = "\<lambda>L b d b'. startswith (hash b') (target d)
         \<and> index b' = index b \<and> prev_hash b' = prev_hash b
         \<and> timestamp b' = timestamp b \<and> transactions b' = transactions b", OF _ assms])
  fix mine' :: "lib \<Rightarrow> block \<Rightarrow> int \<Rightarrow> block option" and L b d b'
  assume IH: "\<And>L b d y. mine' L b d = Some y \<Longrightarrow>
            startswith (hash y) (target d) \<and> index y = index b \<and> prev_hash y = prev_hash b
            \<and> timestamp y = timestamp b \<and> transactions y = transactions b"
    and step: "(if startswith (hash b) (target d) then Some b else mine' L (bump L b) d) = Some b'"
  show "startswith (hash b') (target d) \<and> index b' = index b \<and> prev_hash b' = prev_hash b
         \<and> timestamp b' = timestamp b \<and> transactions b' = transactions b"
  proof (cases "startswith (hash b) (target d)")
    case True
    with step show ?thesis by simp
  next
    case False
    with step have "mine' L (bump L b) d = Some b'" by simp
    from IH [OF this] show ?thesis by (simp add: bump_def Let_def)
  qed
qed

text \<open>
  C8. Whenever \<open>mine\<close> returns, the hash of the block it leaves starts with the target,
  that is with \<open>d\<close> characters \<open>0\<close>; and for difficulty 0 it returns at once, the block
  (its nonce included) untouched.
\<close>

theorem mine_meets_difficulty:
  "(mine L b d = Some b' \<longrightarrow>
      startswith (hash b') (target d) \<and> take (nat d) (hash b') = replicate (nat d) CHR ''0'')
   \<and> mine L b 0 = Some b"
proof -
  have "mine L b 0 = Some b"
    by (subst mine.simps) (simp add: startswith_def target_def)
  moreover have "take (nat d) (hash b') = replicate (nat d) CHR ''0''" if "mine L b d = Some b'"
    using mine_result [OF that] by (simp add: startswith_def target_def)
  ultimately show ?thesis
    using mine_result by blast
qed

theorem mine_meets_difficulty_witness:
  "mine demo (Block demo (Fin 5) 1 (replicate 64 CHR ''0'') [] None 0) 4
     = Some \<lparr>index = 1, prev_hash = replicate 64 CHR ''0'', timestamp = PyFloat (Fin 5), transactions = [],
             nonce = 2, hash = replicate 64 CHR ''0''\<rparr>
   \<and> startswith (replicate 64 CHR ''0'') (target 4)
   \<and> take (nat 4) (replicate 64 CHR ''0'') = replicate (nat 4) CHR ''0''"
proof -
  let ?b0 = "Block demo (Fin 5) 1 (replicate 64 CHR ''0'') [] None 0"
  let ?b2 = "\<lparr>index = 1, prev_hash = replicate 64 CHR ''0'', timestamp = PyFloat (Fin 5), transactions = [],
             nonce = 2, hash = replicate 64 CHR ''0''\<rparr>"
  have run: "mine demo ?b0 4 = Some ?b2"
    apply (subst mine.simps)
    apply (simp add: Block_def bump_def compute_hash_demo demo_len_def hexchar_def startswith_target4)
    apply (subst mine.simps)
    apply (simp add: Block_def bump_def compute_hash_demo demo_len_def hexchar_def startswith_target4)
    apply (subst mine.simps)
    apply (simp add: Block_def bump_def compute_hash_demo demo_len_def hexchar_def startswith_target4 replicate_64)
    done
  from mine_meets_difficulty [of demo ?b0 4 ?b2] run show ?thesis
    by (simp add: target_def startswith_def)
qed

subsection \<open>The ledger\<close>

lemma balance_of_update:
  "balance_of (AList.update k v bs) x = (if x = k then v else balance_of bs x)"
  by (simp add: balance_of_def update_conv')

lemma balance_of_touch: "balance_of (touch a bs) x = balance_of bs x"
  by (simp add: touch_def balance_of_update split: option.splits) (simp add: balance_of_def)

lemma balance_of_credit:
  "balance_of (credit a v bs) x = (if x = a then fadd (balance_of bs a) v else balance_of bs x)"
  by (simp add: credit_def balance_of_update)

lemma balance_of_debit:
  "balance_of (debit a v bs) x = (if x = a then fsub (balance_of bs a) v else balance_of bs x)"
  by (simp add: debit_def balance_of_update)

lemma balance_of_apply_tx_other:
  assumes "x \<noteq> sender t" and "x \<noteq> recipient t"
  shows "balance_of (snd (apply_tx bs t)) x = balance_of bs x"
  using assms
  by (simp add: apply_tx_def balance_of_touch balance_of_credit balance_of_debit split: sum.splits)

lemma balance_of_apply_txs_other:
  assumes "x \<notin> sender ` set txs" and "x \<notin> recipient ` set txs"
  shows "balance_of (snd (apply_txs txs bs)) x = balance_of bs x"
  using assms
proof (induction txs arbitrary: bs)
  case Nil
  show ?case by simp
next
  case (Cons t ts)
  then have x: "x \<noteq> sender t" "x \<noteq> recipient t" by auto
  obtain r bs' where a: "apply_tx bs t = (r, bs')" by (cases "apply_tx bs t")
  from balance_of_apply_tx_other [OF x, of bs] a have b: "balance_of bs' x = balance_of bs x"
    by simp
  show ?case
  proof (cases r)
    case (Returned u)
    with a b Cons show ?thesis by simp
  next
    case (Raised e)
    with a b show ?thesis by simp
  qed
qed

lemma sum_update:
  "sum_list (map (\<lambda>kv. fval (snd kv)) (AList.update k v bs))
     = sum_list (map (\<lambda>kv. fval (snd kv)) bs) - fval (balance_of bs k) + fval v"
  by (induction bs) (auto simp: balance_of_def)

lemma sum_touch:
  "sum_list (map (\<lambda>kv. fval (snd kv)) (touch a bs)) = sum_list (map (\<lambda>kv. fval (snd kv)) bs)"
  by (simp add: touch_def sum_update balance_of_def split: option.splits)

lemma fval_fneg: "fval (fneg v) = - fval v"
  by (cases v) simp_all

lemma sum_credit_exact:
  assumes "exact_add (balance_of bs a) v"
  shows "sum_list (map (\<lambda>kv. fval (snd kv)) (credit a v bs))
           = sum_list (map (\<lambda>kv. fval (snd kv)) bs) + fval v"
  using assms by (simp add: credit_def sum_update exact_add_def)

lemma sum_debit_exact:
  assumes "exact_add (balance_of bs a) (fneg v)"
  shows "sum_list (map (\<lambda>kv. fval (snd kv)) (debit a v bs))
           = sum_list (map (\<lambda>kv. fval (snd kv)) bs) - fval v"
  using assms by (simp add: debit_def fsub_def sum_update exact_add_def fval_fneg)

lemma apply_txs_exact:
  assumes "exact_txs txs bs"
  shows "fst (apply_txs txs bs) = Returned ()
       \<and> sum_list (map (\<lambda>kv. fval (snd kv)) (snd (apply_txs txs bs)))
           = sum_list (map (\<lambda>kv. fval (snd kv)) bs)"
  using assms
proof (induction txs arbitrary: bs)
  case Nil
  show ?case by simp
next
  case (Cons t ts)
  from Cons.prems obtain v where v: "to_float (amount t) = Inr v"
    and e1: "exact_add (balance_of bs (sender t)) (fneg v)"
    and e2: "exact_add (balance_of (debit (sender t) v bs) (recipient t)) v"
    and e3: "exact_txs ts (credit (recipient t) v (debit (sender t) v bs))"
    by (auto split: sum.splits)
  from v have a: "apply_tx bs t = (Returned (), credit (recipient t) v (debit (sender t) v bs))"
    by (simp add: apply_tx_def)
  have "sum_list (map (\<lambda>kv. fval (snd kv)) (credit (recipient t) v (debit (sender t) v bs)))
          = sum_list (map (\<lambda>kv. fval (snd kv)) bs)"
    by (simp add: sum_credit_exact [OF e2] sum_debit_exact [OF e1])
  with Cons.IH [OF e3] a show ?case by simp
qed

text \<open>
  C6. \<open>add_transaction\<close> raises (the source's \<^verbatim>\<open>ValueError('Insufficient balance')\<close>)
  exactly when the sender's balance is below the amount. When it raises, the mempool and
  every balance are as before; when it returns, the transaction of the three arguments
  is the new last element of the mempool and every balance is as before. Chain and
  minted total are untouched either way.
\<close>

theorem add_transaction_spec:
  "(fst (add_transaction a b v s) = Raised ValueError
      \<longleftrightarrow> flt (balance_of (balances s) a) (num_val v))
   \<and> (flt (balance_of (balances s) a) (num_val v) \<longrightarrow>
        pending_tx (snd (add_transaction a b v s)) = pending_tx s)
   \<and> (\<not> flt (balance_of (balances s) a) (num_val v) \<longrightarrow>
        fst (add_transaction a b v s) = Returned \<lparr>sender = a, recipient = b, amount = v\<rparr>
        \<and> pending_tx (snd (add_transaction a b v s))
            = pending_tx s @ [\<lparr>sender = a, recipient = b, amount = v\<rparr>])
   \<and> (\<forall>x. balance_of (balances (snd (add_transaction a b v s))) x = balance_of (balances s) x)
   \<and> chain (snd (add_transaction a b v s)) = chain s
   \<and> total_minted (snd (add_transaction a b v s)) = total_minted s"
  by (simp add: add_transaction_def Let_def balance_of_touch)

theorem add_transaction_spec_witness:
  "(fst (add_transaction ''A'' ''B'' (PyInt 10)
           \<lparr>chain = [], pending_tx = [], balances = [(''A'', Fin (25 / 4))],
              total_minted = Fin (25 / 4)\<rparr>)
      = Raised ValueError)
   \<and> flt (balance_of [(''A'', Fin (25 / 4))] ''A'') (num_val (PyInt 10))
   \<and> pending_tx (snd (add_transaction ''A'' ''B'' (PyInt 10)
           \<lparr>chain = [], pending_tx = [], balances = [(''A'', Fin (25 / 4))],
              total_minted = Fin (25 / 4)\<rparr>)) = []
   \<and> \<not> flt (balance_of [(''A'', Fin (25 / 4))] ''A'') (num_val (PyInt 5))
   \<and> pending_tx (snd (add_transaction ''A'' ''B'' (PyInt 5)
           \<lparr>chain = [], pending_tx = [], balances = [(''A'', Fin (25 / 4))],
              total_minted = Fin (25 / 4)\<rparr>))
       = [\<lparr>sender = ''A'', recipient = ''B'', amount = PyInt 5\<rparr>]"
  using add_transaction_spec [of "''A''" "''B''" "PyInt 10"
          "\<lparr>chain = [], pending_tx = [], balances = [(''A'', Fin (25 / 4))],
             total_minted = Fin (25 / 4)\<rparr>"]
        add_transaction_spec [of "''A''" "''B''" "PyInt 5"
          "\<lparr>chain = [], pending_tx = [], balances = [(''A'', Fin (25 / 4))],
             total_minted = Fin (25 / 4)\<rparr>"]
  by (simp add: balance_of_def)

text \<open>
  C3. In the HTTP binding \<open>mine_pending\<close> never returns a block: on a node with a chain
  it raises \<open>AttributeError\<close>, and in every case it raises and leaves the state (chain,
  ledger, minted total, mempool) as it found it.
\<close>

theorem mine_pending_render_raises:
  "(chain s \<noteq> [] \<longrightarrow> mine_pending_render L now miner s = (Raised AttributeError, s))
   \<and> (\<exists>e. mine_pending_render L now miner s = (Raised e, s))"
  by (simp add: mine_pending_render_def Let_def)

theorem mine_pending_render_raises_witness:
  "chain (create_genesis demo (Fin 5)) \<noteq> []
   \<and> mine_pending_render demo (Fin 6) ''A'' (create_genesis demo (Fin 5))
       = (Raised AttributeError, create_genesis demo (Fin 5))"
  using mine_pending_render_raises [of "create_genesis demo (Fin 5)" demo "Fin 6" "''A''"]
  by (simp add: create_genesis_def)
subsection \<open>Steps of the operations\<close>

lemma mine_pending_empty:
  assumes "chain s = []"
  shows "mine_pending L now m s = Some (Raised IndexError, s)"
  using assms by (simp add: mine_pending_def)

lemma mine_pending_Some:
  assumes "mine_pending L now m s = Some (r, s')" and "chain s \<noteq> []"
  shows "\<exists>blk. mine L (Block L now (int (length (chain s))) (hash (last (chain s)))
                        (pending_tx s) None 0) DIFFICULTY = Some blk
    \<and> chain s' = chain s @ [blk]
    \<and> total_minted s' = fadd (total_minted s) (reward s)
    \<and> balances s' = snd (apply_txs (pending_tx s) (credit m (reward s) (balances s)))
    \<and> fst (apply_txs (pending_tx s) (credit m (reward s) (balances s)))
        = (case r of Returned h \<Rightarrow> Returned () | Raised e \<Rightarrow> Raised e)
    \<and> (case r of Returned h \<Rightarrow> h = hash blk \<and> pending_tx s' = []
        | Raised e \<Rightarrow> pending_tx s' = pending_tx s)"
  using assms
  by (auto simp: mine_pending_def Let_def split: if_splits option.splits prod.splits outcome.splits)

lemma accept_block_cases:
  assumes "accept_block b txs s = (r, s')"
  shows "chain s' = chain s @ [b]
    \<and> balances s' = snd (apply_txs txs (balances s))
    \<and> fst (apply_txs txs (balances s)) = r
    \<and> (case r of
          Returned u \<Rightarrow> total_minted s' = fadd (total_minted s) (reward s) \<and> pending_tx s' = []
        | Raised e \<Rightarrow> total_minted s' = total_minted s \<and> pending_tx s' = pending_tx s)"
  using assms
  by (auto simp: accept_block_def Let_def split: prod.splits outcome.splits)

lemma handler_cases:
  assumes "handler L n1 n2 msg s = (r, s')"
  shows "(chain s' = chain s \<and> total_minted s' = total_minted s
           \<and> (\<forall>x. balance_of (balances s') x = balance_of (balances s) x)
           \<and> ledger_sum s' = ledger_sum s)
       \<or> (\<exists>d. msg = NEW_BLOCK d \<and> index d = int (length (chain s))
              \<and> is_valid_block L n1 d s = Returned True
              \<and> accept_block ((Block L n2 (index d) (prev_hash d) (transactions d)
                                  (Some (timestamp d)) (nonce d))\<lparr>hash := hash d\<rparr>)
                              (transactions d) s = (r, s'))"
proof (cases msg)
  case (NEW_TX d)
  with assms show ?thesis
    by (auto simp: handler_def add_transaction_def Let_def balance_of_touch ledger_sum_def sum_touch
             split: if_splits)
next
  case (NEW_BLOCK d)
  with assms show ?thesis
    by (auto simp: handler_def Let_def split: if_splits outcome.splits bool.splits)
next
  case OTHER
  with assms show ?thesis by (simp add: handler_def)
qed

lemma new_block_cases:
  assumes "new_block L n1 n2 d s = (r, s')"
  shows "s' = s
       \<or> (is_valid_block_render L n1 d s = Returned True
          \<and> accept_block (Block L n2 (index d) (prev_hash d) (transactions d)
                            (Some (timestamp d)) (nonce d))
                          (transactions d) s = (r, s'))"
  using assms by (auto simp: new_block_def split: outcome.splits bool.splits)

lemma accept_block_total:
  assumes "accept_block b txs s = (r, s')"
  shows "total_minted s' = total_minted s \<or> total_minted s' = fadd (total_minted s) (reward s)"
  using accept_block_cases [OF assms] by (cases r) simp_all

subsection \<open>The minted total\<close>

lemma total_step:
  assumes "total_minted s = Fin (of_int (25 * k) / 4)" and "0 \<le> k" and "k \<le> 3360000"
  shows "\<exists>k'. k \<le> k' \<and> k' \<le> 3360000
            \<and> fadd (total_minted s) (reward s) = Fin (of_int (25 * k') / 4)"
proof -
  have g: "0 \<le> 25 * k" "25 * k \<le> 4 * MAX_SUPPLY"
    using assms(2,3) by (simp_all add: MAX_SUPPLY_def)
  note st = reward_grid(2) [OF assms(1) g]
  show ?thesis
  proof (cases "k = 3360000")
    case True
    then have "fadd (total_minted s) (reward s) = Fin (of_int (25 * k) / 4)"
      unfolding st by (simp add: MAX_SUPPLY_def)
    with True show ?thesis by blast
  next
    case False
    with assms(3) have lt: "k + 1 \<le> 3360000" by simp
    then have "(of_int (k + 1) :: rat) \<le> of_int 3360000" by (simp only: of_int_le_iff)
    then have "(25 / 4 :: rat) \<le> of_int MAX_SUPPLY - of_int (25 * k) / 4"
      by (simp add: MAX_SUPPLY_def field_simps)
    then have "fadd (total_minted s) (reward s) = Fin (of_int (25 * (k + 1)) / 4)"
      unfolding st by (simp add: min_def field_simps)
    with lt show ?thesis by (intro exI [of _ "k + 1"]) simp
  qed
qed

lemma total_inv_step:
  assumes "\<exists>k. 0 \<le> k \<and> k \<le> 3360000 \<and> total_minted s = Fin (of_int (25 * k) / 4)"
    and "total_minted s' = total_minted s \<or> total_minted s' = fadd (total_minted s) (reward s)"
  shows "\<exists>k. 0 \<le> k \<and> k \<le> 3360000 \<and> total_minted s' = Fin (of_int (25 * k) / 4)"
proof -
  from assms(1) obtain k where k: "0 \<le> k" "k \<le> 3360000"
    "total_minted s = Fin (of_int (25 * k) / 4)" by blast
  from total_step [OF k(3) k(1) k(2)] obtain k' where "k \<le> k'" "k' \<le> 3360000"
    "fadd (total_minted s) (reward s) = Fin (of_int (25 * k') / 4)" by blast
  with assms(2) k show ?thesis by (metis order_trans)
qed

lemma reachable_total_minted:
  assumes "reachable L s"
  shows "\<exists>k. 0 \<le> k \<and> k \<le> 3360000 \<and> total_minted s = Fin (of_int (25 * k) / 4)"
  using assms
proof (induction rule: reachable.induct)
  case (r_genesis now)
  show ?case by (intro exI [of _ 0]) (simp add: create_genesis_def)
next
  case (r_submit s a b v r s')
  then show ?case by (auto simp: add_transaction_def Let_def split: if_splits)
next
  case (r_mine s now m r' s')
  show ?case
  proof (cases "chain s = []")
    case True
    with r_mine(2) have "s' = s" by (simp add: mine_pending_empty)
    with r_mine(3) show ?thesis by simp
  next
    case False
    from mine_pending_Some [OF r_mine(2) False]
    have "total_minted s' = fadd (total_minted s) (reward s)" by blast
    with r_mine(3) show ?thesis by (intro total_inv_step [of s s']) simp_all
  qed
next
  case (r_inbound s now1 now2 msg r'' s')
  from handler_cases [OF r_inbound(2)]
  have "total_minted s' = total_minted s \<or> total_minted s' = fadd (total_minted s) (reward s)"
    using accept_block_total by blast
  with r_inbound(3) show ?case by (intro total_inv_step [of s s']) simp_all
qed

lemma reachable_render_total_minted:
  assumes "reachable_render L s"
  shows "\<exists>k. 0 \<le> k \<and> k \<le> 3360000 \<and> total_minted s = Fin (of_int (25 * k) / 4)"
  using assms
proof (induction rule: reachable_render.induct)
  case (rr_genesis now)
  show ?case by (intro exI [of _ 0]) (simp add: create_genesis_def)
next
  case (rr_submit s a b v r s')
  then show ?case by (auto simp: add_transaction_def Let_def split: if_splits)
next
  case (rr_mine s now m r' s')
  then show ?case by (auto simp: mine_pending_render_def Let_def split: if_splits)
next
  case (rr_inbound s now1 now2 blk r'' s')
  from new_block_cases [OF rr_inbound(2)]
  have "total_minted s' = total_minted s \<or> total_minted s' = fadd (total_minted s) (reward s)"
    using accept_block_total by blast
  with rr_inbound(3) show ?case by (intro total_inv_step [of s s']) simp_all
qed
subsection \<open>The sample run\<close>

lemma demo_genesis_eq:
  "demo_genesis = \<lparr>chain = [\<lparr>index = 0, prev_hash = replicate 64 CHR ''0'',
                               timestamp = PyFloat (Fin 5), transactions = [], nonce = 0,
                               hash = CHR ''4'' # replicate 63 CHR ''0''\<rparr>],
                    pending_tx = [], balances = [], total_minted = Fin 0\<rparr>"
  by (simp add: demo_genesis_def create_genesis_def Block_def compute_hash_demo demo_len_def hexchar_def)

lemma demo_mine_block1:
  "mine demo (Block demo (Fin 6) 1 (CHR ''4'' # replicate 63 CHR ''0'') [] None 0) DIFFICULTY
     = Some demo_block1"
  unfolding DIFFICULTY_def demo_block1_def
  apply (subst mine.simps)
  apply (simp add: Block_def bump_def compute_hash_demo demo_len_def hexchar_def startswith_target4)
  apply (subst mine.simps)
  apply (simp add: Block_def bump_def compute_hash_demo demo_len_def hexchar_def startswith_target4)
  apply (subst mine.simps)
  apply (simp add: Block_def bump_def compute_hash_demo demo_len_def hexchar_def startswith_target4 replicate_64)
  done

lemma demo_mine_block2:
  "mine demo (Block demo (Fin 7) 2 (replicate 64 CHR ''0'') [demo_tx1, demo_tx2] None 0) DIFFICULTY
     = Some demo_block2"
  unfolding DIFFICULTY_def demo_block2_def
  apply (subst mine.simps)
  apply (simp add: Block_def bump_def compute_hash_demo demo_len_def hexchar_def startswith_target4
      demo_tx1_def demo_tx2_def)
  apply (subst mine.simps)
  apply (simp add: Block_def bump_def compute_hash_demo demo_len_def hexchar_def startswith_target4
      demo_tx1_def demo_tx2_def)
  apply (subst mine.simps)
  apply (simp add: Block_def bump_def compute_hash_demo demo_len_def hexchar_def startswith_target4
      demo_tx1_def demo_tx2_def)
  apply (subst mine.simps)
  apply (simp add: Block_def bump_def compute_hash_demo demo_len_def hexchar_def startswith_target4
      demo_tx1_def demo_tx2_def replicate_64)
  done

lemma demo_mine_block3:
  "mine demo (Block demo (Fin 8) 3 (replicate 64 CHR ''0'') [] None 0) DIFFICULTY
     = Some demo_block3"
  unfolding DIFFICULTY_def demo_block3_def
  apply (subst mine.simps)
  apply (simp add: Block_def bump_def compute_hash_demo demo_len_def hexchar_def startswith_target4
      replicate_64)
  done

lemma mine_pending_eval:
  assumes "chain s \<noteq> []"
    and "mine L (Block L now (int (length (chain s))) (hash (last (chain s))) (pending_tx s)
           None 0) DIFFICULTY = Some blk"
    and "reward s = r" and "credit miner r (balances s) = bs1"
    and "fadd (total_minted s) r = t" and "apply_txs (pending_tx s) bs1 = (Returned (), bs2)"
  shows "mine_pending L now miner s
           = Some (Returned (hash blk),
                   \<lparr>chain = chain s @ [blk], pending_tx = [], balances = bs2,
                      total_minted = t\<rparr>)"
  using assms by (cases s) (simp add: mine_pending_def Let_def)

lemma demo_mine_pending:
  "mine_pending demo (Fin 6) ''A'' (demo_genesis\<lparr>total_minted := t\<rparr>)
     = Some (Returned (hash demo_block1),
             demo_genesis\<lparr>chain := chain demo_genesis @ [demo_block1],
                           balances := [(''A'', fadd (Fin 0) (reward (demo_genesis\<lparr>total_minted := t\<rparr>)))],
                           total_minted := fadd t (reward (demo_genesis\<lparr>total_minted := t\<rparr>)),
                           pending_tx := []\<rparr>)"
  using demo_mine_block1
  by (simp add: mine_pending_def demo_genesis_eq credit_def balance_of_def Let_def)

lemma reward_0: "total_minted s = Fin 0 \<Longrightarrow> reward s = Fin (25 / 4)"
  using reward_grid(1) [of s 0] by (simp add: MAX_SUPPLY_def)

lemma reward_quarters:
  "total_minted s = Fin (25 / 4) \<Longrightarrow> reward s = Fin (25 / 4)"
  "total_minted s = Fin (25 / 4) \<Longrightarrow> fadd (total_minted s) (reward s) = Fin (25 / 2)"
  "total_minted s = Fin (25 / 2) \<Longrightarrow> reward s = Fin (25 / 4)"
  "total_minted s = Fin (25 / 2) \<Longrightarrow> fadd (total_minted s) (reward s) = Fin (75 / 4)"
  using reward_grid [of s 25] reward_grid [of s 50] by (simp_all add: MAX_SUPPLY_def)

lemma demo_run1:
  "mine_pending demo (Fin 6) ''A'' demo_genesis = Some (Returned (hash demo_block1), demo_s1)"
proof -
  have s0: "demo_genesis\<lparr>total_minted := Fin 0\<rparr> = demo_genesis"
    by (simp add: demo_genesis_eq)
  have r: "reward demo_genesis = Fin (25 / 4)"
    by (rule reward_0) (simp add: demo_genesis_eq)
  from demo_mine_pending [of "Fin 0"] show ?thesis
    unfolding s0 r run_reward by (simp add: demo_s1_def demo_genesis_eq)
qed

lemma demo_run2:
  "add_transaction ''A'' ''B'' (PyFloat d01) demo_s1
     = (Returned demo_tx1, demo_s1\<lparr>pending_tx := [demo_tx1]\<rparr>)"
  "add_transaction ''A'' ''B'' (PyFloat d03) (demo_s1\<lparr>pending_tx := [demo_tx1]\<rparr>)
     = (Returned demo_tx2, demo_s2)"
  by (simp_all add: add_transaction_def demo_s1_def demo_s2_def demo_tx1_def demo_tx2_def
        touch_def balance_of_def d01_def d03_def Let_def)

lemma demo_replay:
  "apply_txs [demo_tx1, demo_tx2] [(''A'', Fin (25 / 4)), (''M'', Fin (25 / 4))]
     = (Returned (), [(''A'', Fin (6586514455029351 / 1125899906842624)),
                      (''M'', Fin (25 / 4)),
                      (''B'', Fin (3602879701896397 / 9007199254740992))])"
proof -
  have t1: "apply_tx [(''A'', Fin (25 / 4)), (''M'', Fin (25 / 4))] demo_tx1
              = (Returned (), [(''A'', Fin (3462142213541069 / 562949953421312)),
                               (''M'', Fin (25 / 4)), (''B'', d01)])"
    by (simp add: apply_tx_def demo_tx1_def credit_def debit_def balance_of_def run_A1 run_B1)
  have t2: "apply_tx [(''A'', Fin (3462142213541069 / 562949953421312)),
                      (''M'', Fin (25 / 4)), (''B'', d01)] demo_tx2
              = (Returned (), [(''A'', Fin (6586514455029351 / 1125899906842624)),
                               (''M'', Fin (25 / 4)),
                               (''B'', Fin (3602879701896397 / 9007199254740992))])"
    by (simp add: apply_tx_def demo_tx2_def credit_def debit_def balance_of_def run_A2 run_B2)
  show ?thesis by (simp add: t1 t2)
qed

lemma demo_run3:
  "mine_pending demo (Fin 7) ''M'' demo_s2 = Some (Returned (hash demo_block2), demo_s3)"
proof -
  have c: "chain demo_s2 \<noteq> []" "int (length (chain demo_s2)) = 2"
    "hash (last (chain demo_s2)) = replicate 64 CHR ''0''"
    "pending_tx demo_s2 = [demo_tx1, demo_tx2]" "balances demo_s2 = [(''A'', Fin (25 / 4))]"
    "total_minted demo_s2 = Fin (25 / 4)"
    by (simp_all add: demo_s2_def demo_s1_def demo_genesis_eq demo_block1_def)
  have m: "mine demo (Block demo (Fin 7) (int (length (chain demo_s2)))
             (hash (last (chain demo_s2))) (pending_tx demo_s2) None 0) DIFFICULTY = Some demo_block2"
    unfolding c by (rule demo_mine_block2)
  have cr: "credit ''M'' (Fin (25 / 4)) (balances demo_s2)
              = [(''A'', Fin (25 / 4)), (''M'', Fin (25 / 4))]"
    unfolding c by (simp add: credit_def balance_of_def run_reward del: fadd.simps)
  have t: "fadd (total_minted demo_s2) (Fin (25 / 4)) = Fin (25 / 2)"
    using reward_quarters(1,2) [OF c(6)] by simp
  have rp: "apply_txs (pending_tx demo_s2) [(''A'', Fin (25 / 4)), (''M'', Fin (25 / 4))]
              = (Returned (), balances demo_s3)"
    unfolding c by (simp only: demo_replay demo_s3_def state.simps)
  have "mine_pending demo (Fin 7) ''M'' demo_s2
          = Some (Returned (hash demo_block2),
                  \<lparr>chain = chain demo_s2 @ [demo_block2], pending_tx = [],
                     balances = balances demo_s3, total_minted = Fin (25 / 2)\<rparr>)"
    by (rule mine_pending_eval [OF c(1) m reward_quarters(1) [OF c(6)] cr t rp])
  then show ?thesis by (simp add: demo_s3_def demo_s2_def demo_s1_def)
qed

lemma demo_run4:
  "mine_pending demo (Fin 8) ''B'' demo_s3 = Some (Returned (hash demo_block3), demo_s4)"
proof -
  have c: "chain demo_s3 \<noteq> []" "int (length (chain demo_s3)) = 3"
    "hash (last (chain demo_s3)) = replicate 64 CHR ''0''"
    "pending_tx demo_s3 = []"
    "balances demo_s3 = [(''A'', Fin (6586514455029351 / 1125899906842624)),
                           (''M'', Fin (25 / 4)),
                           (''B'', Fin (3602879701896397 / 9007199254740992))]"
    "total_minted demo_s3 = Fin (25 / 2)"
    by (simp_all add: demo_s3_def demo_genesis_eq demo_block2_def)
  have m: "mine demo (Block demo (Fin 8) (int (length (chain demo_s3)))
             (hash (last (chain demo_s3))) (pending_tx demo_s3) None 0) DIFFICULTY = Some demo_block3"
    unfolding c by (rule demo_mine_block3)
  have cr: "credit ''B'' (Fin (25 / 4)) (balances demo_s3) = balances demo_s4"
    unfolding c by (simp add: credit_def balance_of_def run_B3 demo_s4_def del: fadd.simps)
  have t: "fadd (total_minted demo_s3) (Fin (25 / 4)) = Fin (75 / 4)"
    using reward_quarters(3,4) [OF c(6)] by simp
  have rp: "apply_txs (pending_tx demo_s3) (balances demo_s4) = (Returned (), balances demo_s4)"
    unfolding c by simp
  have "mine_pending demo (Fin 8) ''B'' demo_s3
          = Some (Returned (hash demo_block3),
                  \<lparr>chain = chain demo_s3 @ [demo_block3], pending_tx = [],
                     balances = balances demo_s4, total_minted = Fin (75 / 4)\<rparr>)"
    by (rule mine_pending_eval [OF c(1) m reward_quarters(3) [OF c(6)] cr t rp])
  then show ?thesis by (simp add: demo_s4_def demo_s3_def)
qed

lemma demo_reachable:
  "reachable demo demo_genesis" "reachable demo demo_s1" "reachable demo demo_s2"
  "reachable demo demo_s3"
proof -
  show r0: "reachable demo demo_genesis"
    unfolding demo_genesis_def by (rule r_genesis)
  show r1: "reachable demo demo_s1"
    by (rule r_mine [OF r0 demo_run1])
  have "reachable demo (demo_s1\<lparr>pending_tx := [demo_tx1]\<rparr>)"
    by (rule r_submit [OF r1 demo_run2(1)])
  then show r2: "reachable demo demo_s2"
    by (rule r_submit [OF _ demo_run2(2)])
  show "reachable demo demo_s3"
    by (rule r_mine [OF r2 demo_run3])
qed
subsection \<open>The sum of the balances and the minted total\<close>

text \<open>
  C10, as stated, fails. In the sample run the balances sum to the minted total (6.25)
  before M mines the two transfers of 0.1 and 0.3, and to \<open>12.5 + 5 / 2 ^ 53\<close> against a
  total of 12.5 after: the debits and credits are rounded one by one.
\<close>

theorem ledger_sum_breaks:
  "reachable demo demo_s2
   \<and> ledger_sum demo_s2 = fval (total_minted demo_s2)
   \<and> mine_pending demo (Fin 7) ''M'' demo_s2 = Some (Returned (hash demo_block2), demo_s3)
   \<and> ledger_sum demo_s3 = 25 / 2 + 5 / 9007199254740992
   \<and> fval (total_minted demo_s3) = 25 / 2
   \<and> ledger_sum demo_s3 \<noteq> fval (total_minted demo_s3)"
  using demo_reachable(3) demo_run3
  by (simp add: ledger_sum_def demo_s2_def demo_s1_def demo_s3_def)

text \<open>
  C10, as amended. In the genesis state the balances sum to the minted total (both are
  0); \<open>add_transaction\<close> changes neither; \<open>mine_pending\<close> keeps the two equal whenever
  none of its additions rounds (the reward onto the miner's balance and onto the total,
  every debit and credit of the replay).
\<close>

theorem ledger_sum_total_minted:
  "ledger_sum (create_genesis L now0) = fval (total_minted (create_genesis L now0))
   \<and> ledger_sum (snd (add_transaction a b v s)) = ledger_sum s
   \<and> total_minted (snd (add_transaction a b v s)) = total_minted s
   \<and> (ledger_sum s = fval (total_minted s) \<and> mine_pending L now m s = Some (r, s1)
        \<and> exact_add (balance_of (balances s) m) (reward s)
        \<and> exact_add (total_minted s) (reward s)
        \<and> exact_txs (pending_tx s) (credit m (reward s) (balances s))
      \<longrightarrow> ledger_sum s1 = fval (total_minted s1))"
proof -
  have g: "ledger_sum (create_genesis L now0) = fval (total_minted (create_genesis L now0))"
    by (simp add: ledger_sum_def create_genesis_def)
  have t: "ledger_sum (snd (add_transaction a b v s)) = ledger_sum s
           \<and> total_minted (snd (add_transaction a b v s)) = total_minted s"
    by (simp add: add_transaction_def Let_def ledger_sum_def sum_touch)
  have m: "ledger_sum s1 = fval (total_minted s1)"
    if eq: "ledger_sum s = fval (total_minted s)" and run: "mine_pending L now m s = Some (r, s1)"
      and e1: "exact_add (balance_of (balances s) m) (reward s)"
      and e2: "exact_add (total_minted s) (reward s)"
      and e3: "exact_txs (pending_tx s) (credit m (reward s) (balances s))"
  proof (cases "chain s = []")
    case True
    with run have "s1 = s" by (simp add: mine_pending_empty)
    with eq show ?thesis by simp
  next
    case False
    from mine_pending_Some [OF run False]
    have tot: "total_minted s1 = fadd (total_minted s) (reward s)"
      and bal: "balances s1 = snd (apply_txs (pending_tx s) (credit m (reward s) (balances s)))"
      by blast+
    have "ledger_sum s1 = ledger_sum s + fval (reward s)"
      unfolding ledger_sum_def bal
      by (simp add: apply_txs_exact [OF e3] sum_credit_exact [OF e1])
    moreover have "fval (total_minted s1) = fval (total_minted s) + fval (reward s)"
      unfolding tot using e2 by (simp add: exact_add_def)
    ultimately show ?thesis using eq by simp
  qed
  from g t m show ?thesis by blast
qed

theorem ledger_sum_total_minted_witness:
  "ledger_sum demo_genesis = fval (total_minted demo_genesis)
   \<and> mine_pending demo (Fin 6) ''A'' demo_genesis = Some (Returned (hash demo_block1), demo_s1)
   \<and> exact_add (balance_of (balances demo_genesis) ''A'') (reward demo_genesis)
   \<and> exact_add (total_minted demo_genesis) (reward demo_genesis)
   \<and> exact_txs (pending_tx demo_genesis) (credit ''A'' (reward demo_genesis) (balances demo_genesis))
   \<and> ledger_sum demo_s1 = 25 / 4
   \<and> fval (total_minted demo_s1) = 25 / 4"
proof -
  have r: "reward demo_genesis = Fin (25 / 4)"
    by (rule reward_0) (simp add: demo_genesis_eq)
  have h: "ledger_sum demo_genesis = fval (total_minted demo_genesis)"
    "exact_add (balance_of (balances demo_genesis) ''A'') (reward demo_genesis)"
    "exact_add (total_minted demo_genesis) (reward demo_genesis)"
    "exact_txs (pending_tx demo_genesis) (credit ''A'' (reward demo_genesis) (balances demo_genesis))"
    unfolding r
    by (simp_all add: demo_genesis_eq ledger_sum_def exact_add_def balance_of_def run_reward
          del: fadd.simps)
  from ledger_sum_total_minted [of demo "Fin 5" "''A''" "''B''" "PyInt 1" demo_genesis "Fin 6"
      "''A''" "Returned (hash demo_block1)" demo_s1] h demo_run1
  show ?thesis by (simp add: demo_s1_def)
qed

text \<open>
  C4, as stated, fails in one part: the miner is not always credited exactly the reward.
  In the sample run B holds the double 0.4 when it mines an empty block for a reward of
  6.25; its balance becomes the double 6.65, which is \<open>3 / 2 ^ 53\<close> more than
  \<open>0.4 + 6.25\<close>.
\<close>

theorem miner_credit_rounds:
  "reachable demo demo_s3
   \<and> pending_tx demo_s3 = []
   \<and> reward demo_s3 = Fin (25 / 4)
   \<and> mine_pending demo (Fin 8) ''B'' demo_s3 = Some (Returned (hash demo_block3), demo_s4)
   \<and> balance_of (balances demo_s3) ''B'' = Fin (3602879701896397 / 9007199254740992)
   \<and> balance_of (balances demo_s4) ''B'' = Fin (3743617190251725 / 562949953421312)
   \<and> fval (balance_of (balances demo_s4) ''B'') - fval (balance_of (balances demo_s3) ''B'')
       = 25 / 4 + 3 / 9007199254740992
   \<and> fval (balance_of (balances demo_s4) ''B'') - fval (balance_of (balances demo_s3) ''B'')
       \<noteq> 25 / 4"
proof -
  have "reward demo_s3 = Fin (25 / 4)"
    by (rule reward_quarters(3)) (simp add: demo_s3_def)
  with demo_reachable(4) demo_run4 show ?thesis
    by (simp add: demo_s3_def demo_s4_def balance_of_def)
qed

text \<open>
  C4, as amended. In every reachable state of either binding the minted total is a
  multiple of 6.25 between 0 and \<open>MAX_SUPPLY\<close>. For a total that is a multiple of a
  quarter in that range, \<open>reward = min BLOCK_REWARD (MAX_SUPPLY - total_minted)\<close> is
  computed without rounding and adding it gives exactly \<open>total_minted + reward\<close>, no
  smaller than before and no larger than \<open>MAX_SUPPLY\<close>. \<open>mine_pending\<close> sets the total to
  that sum and adds the same reward to the miner's balance before it replays the mempool;
  the balance it stores is the float sum of balance and reward, which is their exact sum
  when both are multiples of a quarter below \<open>2 ^ 51\<close>. An inbound message leaves the total
  as it is or sets it to that sum. From a total of \<open>MAX_SUPPLY - 2\<close> the reward is 2 and
  the new total is \<open>MAX_SUPPLY\<close>; from \<open>MAX_SUPPLY\<close> the reward is 0 and the total stays.
\<close>

theorem total_minted_capped:
  "(reachable L s \<or> reachable_render L s \<longrightarrow>
      (\<exists>j. 0 \<le> j \<and> j \<le> 3360000 \<and> total_minted s = Fin (of_int (25 * j) / 4)))
   \<and> (total_minted s = Fin (of_int k / 4) \<and> 0 \<le> k \<and> k \<le> 4 * MAX_SUPPLY \<longrightarrow>
        reward s = Fin (min (25 / 4) (of_int MAX_SUPPLY - of_int k / 4))
        \<and> fadd (total_minted s) (reward s)
            = Fin (of_int k / 4 + min (25 / 4) (of_int MAX_SUPPLY - of_int k / 4))
        \<and> (of_int k / 4 :: rat) \<le> of_int k / 4 + min (25 / 4) (of_int MAX_SUPPLY - of_int k / 4)
        \<and> (of_int k / 4 + min (25 / 4) (of_int MAX_SUPPLY - of_int k / 4) :: rat)
            \<le> of_int MAX_SUPPLY)
   \<and> (chain s \<noteq> [] \<and> mine_pending L now m s = Some (r, s1) \<longrightarrow>
        total_minted s1 = fadd (total_minted s) (reward s)
        \<and> balances s1 = snd (apply_txs (pending_tx s) (credit m (reward s) (balances s)))
        \<and> balance_of (credit m (reward s) (balances s)) m
            = fadd (balance_of (balances s) m) (reward s))
   \<and> (\<bar>i + j'\<bar> < 2 ^ 53 \<longrightarrow>
        fadd (Fin (of_int i / 4)) (Fin (of_int j' / 4)) = Fin (of_int i / 4 + of_int j' / 4))
   \<and> (handler L n1 n2 msg s = (r2, s2) \<longrightarrow>
        total_minted s2 = total_minted s \<or> total_minted s2 = fadd (total_minted s) (reward s))
   \<and> (new_block L n1 n2 d s = (r3, s3) \<longrightarrow>
        total_minted s3 = total_minted s \<or> total_minted s3 = fadd (total_minted s) (reward s))
   \<and> (total_minted s = Fin (of_int MAX_SUPPLY - 2) \<longrightarrow>
        reward s = Fin 2 \<and> fadd (total_minted s) (reward s) = Fin (of_int MAX_SUPPLY))
   \<and> (total_minted s = Fin (of_int MAX_SUPPLY) \<longrightarrow>
        reward s = Fin 0 \<and> fadd (total_minted s) (reward s) = Fin (of_int MAX_SUPPLY))"
proof -
  have a: "\<exists>j. 0 \<le> j \<and> j \<le> 3360000 \<and> total_minted s = Fin (of_int (25 * j) / 4)"
    if "reachable L s \<or> reachable_render L s"
    using that reachable_total_minted reachable_render_total_minted by blast
  have b: "reward s = Fin (min (25 / 4) (of_int MAX_SUPPLY - of_int k / 4))
        \<and> fadd (total_minted s) (reward s)
            = Fin (of_int k / 4 + min (25 / 4) (of_int MAX_SUPPLY - of_int k / 4))
        \<and> (of_int k / 4 :: rat) \<le> of_int k / 4 + min (25 / 4) (of_int MAX_SUPPLY - of_int k / 4)
        \<and> (of_int k / 4 + min (25 / 4) (of_int MAX_SUPPLY - of_int k / 4) :: rat)
            \<le> of_int MAX_SUPPLY"
    if h: "total_minted s = Fin (of_int k / 4)" "0 \<le> k" "k \<le> 4 * MAX_SUPPLY"
  proof -
    have "(of_int k :: rat) \<le> of_int (4 * MAX_SUPPLY)" using h(3) by (simp only: of_int_le_iff)
    then have "(0::rat) \<le> of_int MAX_SUPPLY - of_int k / 4" by simp
    then show ?thesis using reward_grid [OF h] by (simp add: min_def)
  qed
  have c: "total_minted s1 = fadd (total_minted s) (reward s)
        \<and> balances s1 = snd (apply_txs (pending_tx s) (credit m (reward s) (balances s)))
        \<and> balance_of (credit m (reward s) (balances s)) m
            = fadd (balance_of (balances s) m) (reward s)"
    if "chain s \<noteq> []" "mine_pending L now m s = Some (r, s1)"
    using mine_pending_Some [OF that(2,1)] by (auto simp: balance_of_credit)
  have d: "fadd (Fin (of_int i / 4)) (Fin (of_int j' / 4)) = Fin (of_int i / 4 + of_int j' / 4)"
    if "\<bar>i + j'\<bar> < 2 ^ 53"
    using fadd_grid [OF that] by (simp only: of_int_add add_divide_distrib)
  have e: "total_minted s2 = total_minted s \<or> total_minted s2 = fadd (total_minted s) (reward s)"
    if "handler L n1 n2 msg s = (r2, s2)"
    using handler_cases [OF that] accept_block_total by blast
  have f: "total_minted s3 = total_minted s \<or> total_minted s3 = fadd (total_minted s) (reward s)"
    if "new_block L n1 n2 d s = (r3, s3)"
    using new_block_cases [OF that] accept_block_total by blast
  have g: "reward s = Fin 2 \<and> fadd (total_minted s) (reward s) = Fin (of_int MAX_SUPPLY)"
    if "total_minted s = Fin (of_int MAX_SUPPLY - 2)"
  proof -
    from that have "total_minted s = Fin (of_int (4 * MAX_SUPPLY - 8) / 4)" by simp
    from reward_grid [OF this] show ?thesis by (simp add: MAX_SUPPLY_def)
  qed
  have h: "reward s = Fin 0 \<and> fadd (total_minted s) (reward s) = Fin (of_int MAX_SUPPLY)"
    if "total_minted s = Fin (of_int MAX_SUPPLY)"
  proof -
    from that have "total_minted s = Fin (of_int (4 * MAX_SUPPLY) / 4)" by simp
    from reward_grid [OF this] show ?thesis by (simp add: MAX_SUPPLY_def)
  qed
  from a b c d e f g h show ?thesis by blast
qed

theorem total_minted_capped_witness:
  "total_minted demo_near_cap = Fin (of_int MAX_SUPPLY - 2)
   \<and> chain demo_near_cap \<noteq> []
   \<and> reward demo_near_cap = Fin 2
   \<and> mine_pending demo (Fin 6) ''A'' demo_near_cap
       = Some (Returned (hash demo_block1),
               demo_genesis\<lparr>chain := chain demo_genesis @ [demo_block1],
                             balances := [(''A'', Fin 2)],
                             total_minted := Fin (of_int MAX_SUPPLY),
                             pending_tx := []\<rparr>)
   \<and> reward (demo_genesis\<lparr>chain := chain demo_genesis @ [demo_block1],
                             balances := [(''A'', Fin 2)],
                             total_minted := Fin (of_int MAX_SUPPLY),
                             pending_tx := []\<rparr>) = Fin 0"
proof -
  let ?s1 = "demo_genesis\<lparr>chain := chain demo_genesis @ [demo_block1],
                             balances := [(''A'', Fin 2)],
                             total_minted := Fin (of_int MAX_SUPPLY),
                             pending_tx := []\<rparr>"
  have t: "total_minted demo_near_cap = Fin (of_int MAX_SUPPLY - 2)"
    "total_minted ?s1 = Fin (of_int MAX_SUPPLY)" "chain demo_near_cap \<noteq> []"
    by (simp_all add: demo_near_cap_def demo_genesis_eq)
  have z: "fadd (Fin 0) (Fin 2) = Fin 2" using fadd_grid [of 0 8] by simp
  note th = total_minted_capped [of demo demo_near_cap 0 "Fin 6" "''A''"
      "Returned (hash demo_block1)" ?s1 0 0 "Fin 0" "Fin 0" OTHER "Returned ()" demo_near_cap
      demo_block1 "Returned ()" demo_near_cap]
  note th1 = total_minted_capped [of demo ?s1 0 "Fin 6" "''A''"
      "Returned (hash demo_block1)" ?s1 0 0 "Fin 0" "Fin 0" OTHER "Returned ()" ?s1
      demo_block1 "Returned ()" ?s1]
  from th t(1) have r: "reward demo_near_cap = Fin 2"
    "fadd (total_minted demo_near_cap) (reward demo_near_cap) = Fin (of_int MAX_SUPPLY)"
    by blast+
  from th1 t(2) have r1: "reward ?s1 = Fin 0" by blast
  have run: "mine_pending demo (Fin 6) ''A'' demo_near_cap
               = Some (Returned (hash demo_block1), ?s1)"
    using demo_mine_pending [of "Fin (of_int MAX_SUPPLY - 2)"] r
    unfolding demo_near_cap_def [symmetric] by (simp add: z t(1) demo_near_cap_def del: fadd.simps)
  from t r r1 run show ?thesis by simp
qed
subsection \<open>Validation of inbound blocks\<close>

lemma compute_hash_fields:
  assumes "index b = index b'" "prev_hash b = prev_hash b'" "timestamp b = timestamp b'"
    "transactions b = transactions b'" "nonce b = nonce b'"
  shows "compute_hash L b = compute_hash L b'"
  using assms by (simp add: compute_hash_def)

lemma hash_Block:
  "hash (Block L now i p txs ts n) = compute_hash L (Block L now i p txs ts n)"
  by (simp add: Block_def Let_def compute_hash_def)

lemma Block_fields:
  "index (Block L now i p txs ts n) = i" "prev_hash (Block L now i p txs ts n) = p"
  "transactions (Block L now i p txs ts n) = txs" "nonce (Block L now i p txs ts n) = n"
  "timestamp (Block L now i p txs (Some t) n) = (if truthy t then t else PyFloat now)"
  "timestamp (Block L now i p txs None n) = PyFloat now"
  by (simp_all add: Block_def Let_def)

lemma hash_rebuilt:
  assumes "truthy (timestamp d)"
  shows "hash (Block L now (index d) (prev_hash d) (transactions d) (Some (timestamp d)) (nonce d))
           = compute_hash L d"
  unfolding hash_Block using assms by (intro compute_hash_fields) (simp_all add: Block_fields)

lemma is_valid_block_True:
  assumes "is_valid_block L now d s = Returned True"
  shows "chain s \<noteq> [] \<and> prev_hash d = hash (last (chain s))"
  using assms by (auto simp: is_valid_block_def Let_def Block_fields split: if_splits)

lemma is_valid_block_render_True:
  assumes "is_valid_block_render L now d s = Returned True"
  shows "chain s \<noteq> [] \<and> index d = int (length (chain s)) \<and> prev_hash d = hash (last (chain s))"
  using assms by (auto simp: is_valid_block_render_def split: if_splits)

lemma accept_block_chain: "chain (snd (accept_block b txs s)) = chain s @ [b]"
  by (simp add: accept_block_def Let_def split: prod.splits outcome.splits)

lemma handler_accepts:
  assumes "index d = int (length (chain s))" and "is_valid_block L n1 d s = Returned True"
  shows "handler L n1 n2 (NEW_BLOCK d) s
           = accept_block ((Block L n2 (index d) (prev_hash d) (transactions d)
                              (Some (timestamp d)) (nonce d))\<lparr>hash := hash d\<rparr>)
                          (transactions d) s"
  using assms by (simp add: handler_def Let_def)

lemma new_block_accepts:
  assumes "is_valid_block_render L n1 d s = Returned True"
  shows "new_block L n1 n2 d s
           = accept_block (Block L n2 (index d) (prev_hash d) (transactions d)
                             (Some (timestamp d)) (nonce d))
                          (transactions d) s"
  using assms by (simp add: new_block_def)

text \<open>
  C1. Neither \<open>is_valid_block\<close> looks at the difficulty: a candidate that extends the
  head (index, previous hash) and declares the hash of its own fields is accepted and
  committed by both bindings although its hash does not start with \<open>DIFFICULTY\<close> zeros.
\<close>

theorem is_valid_block_ignores_difficulty:
  assumes "chain s \<noteq> []" and "index d = int (length (chain s))"
    and "prev_hash d = hash (last (chain s))" and "hash d = compute_hash L d"
    and "truthy (timestamp d)" and "\<not> startswith (hash d) (target DIFFICULTY)"
  shows "is_valid_block L n1 d s = Returned True
       \<and> is_valid_block_render L n1 d s = Returned True
       \<and> chain (snd (handler L n1 n2 (NEW_BLOCK d) s)) = chain s @ [d]
       \<and> chain (snd (new_block L n1 n2 d s)) = chain s @ [d]"
proof -
  have rb: "hash (Block L now (index d) (prev_hash d) (transactions d) (Some (timestamp d)) (nonce d))
              = hash d" for now
    using hash_rebuilt [OF assms(5)] assms(4) by simp
  have eq: "Block L now (index d) (prev_hash d) (transactions d) (Some (timestamp d)) (nonce d) = d" for now
    using rb [of now] assms(5) by (simp add: Block_def Let_def)
  have v1: "is_valid_block L n1 d s = Returned True"
    unfolding is_valid_block_def Let_def eq using assms(1,3) by simp
  have v2: "is_valid_block_render L n1 d s = Returned True"
    unfolding is_valid_block_render_def eq using assms(1,2,3) by simp
  have c1: "chain (snd (handler L n1 n2 (NEW_BLOCK d) s)) = chain s @ [d]"
    unfolding handler_accepts [OF assms(2) v1] eq accept_block_chain by simp
  have c2: "chain (snd (new_block L n1 n2 d s)) = chain s @ [d]"
    unfolding new_block_accepts [OF v2] eq accept_block_chain by simp
  from v1 v2 c1 c2 show ?thesis by simp
qed

theorem is_valid_block_ignores_difficulty_witness:
  "chain demo_genesis \<noteq> [] \<and> index demo_block_weak = int (length (chain demo_genesis))
   \<and> prev_hash demo_block_weak = hash (last (chain demo_genesis))
   \<and> hash demo_block_weak = compute_hash demo demo_block_weak
   \<and> truthy (timestamp demo_block_weak)
   \<and> \<not> startswith (hash demo_block_weak) (target DIFFICULTY)
   \<and> is_valid_block demo (Fin 7) demo_block_weak demo_genesis = Returned True
   \<and> is_valid_block_render demo (Fin 7) demo_block_weak demo_genesis = Returned True
   \<and> chain (snd (handler demo (Fin 7) (Fin 8) (NEW_BLOCK demo_block_weak) demo_genesis))
       = chain demo_genesis @ [demo_block_weak]
   \<and> chain (snd (new_block demo (Fin 7) (Fin 8) demo_block_weak demo_genesis))
       = chain demo_genesis @ [demo_block_weak]"
proof -
  have h: "chain demo_genesis \<noteq> []" "index demo_block_weak = int (length (chain demo_genesis))"
    "prev_hash demo_block_weak = hash (last (chain demo_genesis))"
    "hash demo_block_weak = compute_hash demo demo_block_weak"
    "truthy (timestamp demo_block_weak)"
    "\<not> startswith (hash demo_block_weak) (target DIFFICULTY)"
    by (simp_all add: demo_genesis_eq demo_block_weak_def compute_hash_demo demo_len_def
          hexchar_def DIFFICULTY_def startswith_target4)
  from is_valid_block_ignores_difficulty [OF h, of "Fin 7" "Fin 8"] h show ?thesis by simp
qed

subsection \<open>Chain linkage\<close>

lemma chain_ok_append:
  assumes "chain_ok c" and "index b = int (length c)" and "prev_hash b = hash (last c)"
  shows "chain_ok (c @ [b])"
proof -
  from assms(1) have ne: "c \<noteq> []" by (simp add: chain_ok_def)
  then have last: "last c = c ! (length c - 1)" by (rule last_conv_nth)
  have step: "index ((c @ [b]) ! i) = int i \<and> prev_hash ((c @ [b]) ! i) = hash ((c @ [b]) ! (i - 1))"
    if "i \<in> {1..<length (c @ [b])}" for i
  proof (cases "i < length c")
    case True
    then have "i - 1 < length c" by simp
    with True that assms(1) show ?thesis by (simp add: chain_ok_def nth_append)
  next
    case False
    with that have "i = length c" by simp
    with ne assms(2,3) last show ?thesis by (simp add: nth_append)
  qed
  from assms(1) ne have "index ((c @ [b]) ! 0) = 0 \<and> prev_hash ((c @ [b]) ! 0) = replicate 64 CHR ''0''
      \<and> transactions ((c @ [b]) ! 0) = []"
    by (simp add: chain_ok_def nth_append)
  with step show ?thesis unfolding chain_ok_def by blast
qed

lemma chain_ok_genesis: "chain_ok (chain (create_genesis L now))"
  by (simp add: chain_ok_def create_genesis_def Block_fields)

lemma chain_ok_accept:
  assumes "chain_ok (chain s)" and "index b = int (length (chain s))"
    and "prev_hash b = hash (last (chain s))" and "accept_block b txs s = (r, s')"
  shows "chain_ok (chain s')"
  using chain_ok_append [OF assms(1-3)] accept_block_cases [OF assms(4)] by simp

lemma reachable_chain_ok:
  assumes "reachable L s"
  shows "chain_ok (chain s)"
  using assms
proof (induction rule: reachable.induct)
  case (r_genesis now)
  show ?case by (rule chain_ok_genesis)
next
  case (r_submit s a b v r s1)
  then show ?case by (auto simp: add_transaction_def Let_def split: if_splits)
next
  case (r_mine s now m r s1)
  from r_mine(3) have ne: "chain s \<noteq> []" by (simp add: chain_ok_def)
  from mine_pending_Some [OF r_mine(2) ne]
  obtain blk where run: "mine L (Block L now (int (length (chain s))) (hash (last (chain s)))
                                 (pending_tx s) None 0) DIFFICULTY = Some blk"
    and s1: "chain s1 = chain s @ [blk]" by blast
  from mine_result [OF run] have "index blk = int (length (chain s))"
    "prev_hash blk = hash (last (chain s))" by (simp_all add: Block_fields)
  with r_mine(3) s1 show ?case by (simp add: chain_ok_append)
next
  case (r_inbound s now1 now2 msg r s1)
  from handler_cases [OF r_inbound(2)] show ?case
  proof (elim disjE exE conjE)
    assume "chain s1 = chain s"
    with r_inbound(3) show ?thesis by simp
  next
    fix d
    assume i: "index d = int (length (chain s))" and v: "is_valid_block L now1 d s = Returned True"
      and a: "accept_block ((Block L now2 (index d) (prev_hash d) (transactions d)
                               (Some (timestamp d)) (nonce d))\<lparr>hash := hash d\<rparr>)
                           (transactions d) s = (r, s1)"
    from is_valid_block_True [OF v] have "prev_hash d = hash (last (chain s))" by simp
    with i r_inbound(3) show ?thesis
      by (intro chain_ok_accept [OF _ _ _ a]) (simp_all add: Block_fields)
  qed
qed

lemma reachable_render_chain_ok:
  assumes "reachable_render L s"
  shows "chain_ok (chain s)"
  using assms
proof (induction rule: reachable_render.induct)
  case (rr_genesis now)
  show ?case by (rule chain_ok_genesis)
next
  case (rr_submit s a b v r s1)
  then show ?case by (auto simp: add_transaction_def Let_def split: if_splits)
next
  case (rr_mine s now m r s1)
  then show ?case by (auto simp: mine_pending_render_def Let_def split: if_splits)
next
  case (rr_inbound s now1 now2 blk r s1)
  from new_block_cases [OF rr_inbound(2)] show ?case
  proof (elim disjE conjE)
    assume "s1 = s"
    with rr_inbound(3) show ?thesis by simp
  next
    assume v: "is_valid_block_render L now1 blk s = Returned True"
      and a: "accept_block (Block L now2 (index blk) (prev_hash blk) (transactions blk)
                              (Some (timestamp blk)) (nonce blk))
                           (transactions blk) s = (r, s1)"
    from is_valid_block_render_True [OF v] rr_inbound(3) show ?thesis
      by (intro chain_ok_accept [OF _ _ _ a]) (simp_all add: Block_fields)
  qed
qed

lemma demo_block1_index:
  "index demo_block1 = int (length (chain demo_genesis))"
  "index demo_block_weak = index demo_block1"
  by (simp_all add: demo_genesis_eq demo_block1_def demo_block_weak_def)

lemma demo_block1_rebuilt:
  "Block demo n (index demo_block1) (prev_hash demo_block1) (transactions demo_block1)
     (Some (timestamp demo_block1)) (nonce demo_block1) = demo_block1"
  by (simp add: demo_block1_def Block_def compute_hash_demo demo_len_def hexchar_def replicate_64)

lemma demo_block1_valid: "is_valid_block demo n demo_block1 demo_genesis = Returned True"
  unfolding is_valid_block_def Let_def demo_block1_rebuilt
  by (simp add: demo_genesis_eq demo_block1_def)

lemma demo_block1_valid_render:
  "is_valid_block_render demo n demo_block1 demo_genesis = Returned True"
  unfolding is_valid_block_render_def demo_block1_rebuilt
  by (simp add: demo_genesis_eq demo_block1_def)

lemma demo_accept_block1:
  "accept_block demo_block1 [] demo_genesis
     = (Returned (), \<lparr>chain = chain demo_genesis @ [demo_block1], pending_tx = [],
                       balances = [], total_minted = Fin (25 / 4)\<rparr>)"
proof -
  have "reward demo_genesis = Fin (25 / 4)"
    by (rule reward_0) (simp add: demo_genesis_eq)
  then show ?thesis
    by (simp add: accept_block_def Let_def demo_genesis_eq run_reward del: fadd.simps)
qed

lemma demo_handler_block1:
  "handler demo n1 n2 (NEW_BLOCK demo_block1) demo_genesis = accept_block demo_block1 [] demo_genesis"
  unfolding handler_accepts [OF demo_block1_index(1) demo_block1_valid] demo_block1_rebuilt
  by (simp add: demo_block1_def)

lemma demo_new_block_block1:
  "new_block demo n1 n2 demo_block1 demo_genesis = accept_block demo_block1 [] demo_genesis"
  unfolding new_block_accepts [OF demo_block1_valid_render] demo_block1_rebuilt
  by (simp add: demo_block1_def)

text \<open>
  C5. Every state reachable from the genesis state by submit-transaction, mine-pending and
  inbound messages, in the socket binding and in the HTTP binding, has a chain whose first
  block has index 0, 64 zeros as previous hash and no transactions, and whose block at
  every position \<open>i > 0\<close> has index \<open>i\<close> and the hash of block \<open>i - 1\<close> as previous hash.
\<close>

theorem reachable_chain_linked:
  "(reachable L s \<longrightarrow> chain_ok (chain s)) \<and> (reachable_render L s \<longrightarrow> chain_ok (chain s))"
  using reachable_chain_ok reachable_render_chain_ok by blast

theorem reachable_chain_linked_witness:
  "reachable demo demo_s1
   \<and> reachable_render demo (snd (accept_block demo_block1 [] demo_genesis))
   \<and> chain demo_s1 = chain demo_genesis @ [demo_block1]
   \<and> chain (snd (accept_block demo_block1 [] demo_genesis)) = chain demo_genesis @ [demo_block1]
   \<and> chain_ok (chain demo_genesis @ [demo_block1])"
proof -
  have rr0: "reachable_render demo demo_genesis"
    unfolding demo_genesis_def by (rule rr_genesis)
  have nb: "new_block demo (Fin 7) (Fin 8) demo_block1 demo_genesis
              = (fst (accept_block demo_block1 [] demo_genesis),
                 snd (accept_block demo_block1 [] demo_genesis))"
    by (simp add: demo_new_block_block1)
  have rr1: "reachable_render demo (snd (accept_block demo_block1 [] demo_genesis))"
    by (rule rr_inbound [OF rr0 nb])
  have c: "chain demo_s1 = chain demo_genesis @ [demo_block1]" by (simp add: demo_s1_def)
  from reachable_chain_linked [of demo demo_s1] demo_reachable(2) rr1 c show ?thesis
    by (simp add: accept_block_chain)
qed
subsection \<open>Inbound blocks: commit and rejection\<close>

text \<open>
  C7. Once a block with index \<open>len(chain)\<close> has been accepted, a second block with the
  same index fails the index check (the chain is one longer) whatever else it holds, and
  handling it returns the state it found: chain, ledger, minted total and mempool are the
  same. In both bindings a block that is not accepted leaves the state as it was. The
  first block's handling returns normally unless the replay of its transactions raises.
\<close>

theorem same_height_second_rejected:
  "(index b1 = int (length (chain s)) \<and> is_valid_block L n1 b1 s = Returned True
      \<and> index b2 = index b1 \<longrightarrow>
      (\<exists>s1. handler L n1 n2 (NEW_BLOCK b1) s
              = (fst (apply_txs (transactions b1) (balances s)), s1)
            \<and> length (chain s1) = Suc (length (chain s))
            \<and> index b2 \<noteq> int (length (chain s1))
            \<and> handler L n3 n4 (NEW_BLOCK b2) s1 = (Returned (), s1)))
   \<and> (is_valid_block_render L n1 b1 s = Returned True \<and> index b2 = index b1 \<longrightarrow>
      (\<exists>s1. new_block L n1 n2 b1 s
              = (fst (apply_txs (transactions b1) (balances s)), s1)
            \<and> length (chain s1) = Suc (length (chain s))
            \<and> index b2 \<noteq> int (length (chain s1))
            \<and> is_valid_block_render L n3 b2 s1 = Returned False
            \<and> new_block L n3 n4 b2 s1 = (Returned (), s1)))
   \<and> (index d \<noteq> int (length (chain s)) \<longrightarrow>
        handler L n1 n2 (NEW_BLOCK d) s = (Returned (), s))
   \<and> (is_valid_block L n1 d s = Returned False \<longrightarrow>
        handler L n1 n2 (NEW_BLOCK d) s = (Returned (), s))
   \<and> (is_valid_block_render L n1 d s = Returned False \<longrightarrow>
        new_block L n1 n2 d s = (Returned (), s))"
proof -
  have a: "\<exists>s1. handler L n1 n2 (NEW_BLOCK b1) s
              = (fst (apply_txs (transactions b1) (balances s)), s1)
            \<and> length (chain s1) = Suc (length (chain s))
            \<and> index b2 \<noteq> int (length (chain s1))
            \<and> handler L n3 n4 (NEW_BLOCK b2) s1 = (Returned (), s1)"
    if h: "index b1 = int (length (chain s))" "is_valid_block L n1 b1 s = Returned True"
      "index b2 = index b1"
  proof -
    obtain r s1 where acc: "handler L n1 n2 (NEW_BLOCK b1) s = (r, s1)"
      by (cases "handler L n1 n2 (NEW_BLOCK b1) s")
    from acc have "accept_block ((Block L n2 (index b1) (prev_hash b1) (transactions b1)
                                    (Some (timestamp b1)) (nonce b1))\<lparr>hash := hash b1\<rparr>)
                                (transactions b1) s = (r, s1)"
      by (simp add: handler_accepts [OF h(1,2)])
    from accept_block_cases [OF this]
    have c: "length (chain s1) = Suc (length (chain s))"
      and r: "r = fst (apply_txs (transactions b1) (balances s))" by simp_all
    from c h(1,3) have "index b2 \<noteq> int (length (chain s1))" by simp
    then have "handler L n3 n4 (NEW_BLOCK b2) s1 = (Returned (), s1)" by (simp add: handler_def)
    with acc c r \<open>index b2 \<noteq> int (length (chain s1))\<close> show ?thesis by blast
  qed
  have b: "\<exists>s1. new_block L n1 n2 b1 s
              = (fst (apply_txs (transactions b1) (balances s)), s1)
            \<and> length (chain s1) = Suc (length (chain s))
            \<and> index b2 \<noteq> int (length (chain s1))
            \<and> is_valid_block_render L n3 b2 s1 = Returned False
            \<and> new_block L n3 n4 b2 s1 = (Returned (), s1)"
    if h: "is_valid_block_render L n1 b1 s = Returned True" "index b2 = index b1"
  proof -
    obtain r s1 where acc: "new_block L n1 n2 b1 s = (r, s1)"
      by (cases "new_block L n1 n2 b1 s")
    from acc have "accept_block (Block L n2 (index b1) (prev_hash b1) (transactions b1)
                                   (Some (timestamp b1)) (nonce b1))
                                (transactions b1) s = (r, s1)"
      by (simp add: new_block_accepts [OF h(1)])
    from accept_block_cases [OF this]
    have c: "length (chain s1) = Suc (length (chain s))"
      and r: "r = fst (apply_txs (transactions b1) (balances s))" by simp_all
    from is_valid_block_render_True [OF h(1)] c h(2)
    have i: "index b2 \<noteq> int (length (chain s1))" by simp
    then have v: "is_valid_block_render L n3 b2 s1 = Returned False"
      by (simp add: is_valid_block_render_def)
    then have "new_block L n3 n4 b2 s1 = (Returned (), s1)" by (simp add: new_block_def)
    with acc c r i v show ?thesis by blast
  qed
  have c: "handler L n1 n2 (NEW_BLOCK d) s = (Returned (), s)"
    if "index d \<noteq> int (length (chain s)) \<or> is_valid_block L n1 d s = Returned False"
    using that by (auto simp: handler_def)
  have e: "new_block L n1 n2 d s = (Returned (), s)"
    if "is_valid_block_render L n1 d s = Returned False"
    using that by (simp add: new_block_def)
  from a b c e show ?thesis by blast
qed

theorem same_height_second_rejected_witness:
  "index demo_block1 = int (length (chain demo_genesis))
   \<and> is_valid_block demo (Fin 7) demo_block1 demo_genesis = Returned True
   \<and> is_valid_block_render demo (Fin 7) demo_block1 demo_genesis = Returned True
   \<and> index demo_block_weak = index demo_block1
   \<and> handler demo (Fin 7) (Fin 8) (NEW_BLOCK demo_block1) demo_genesis
       = (Returned (), snd (accept_block demo_block1 [] demo_genesis))
   \<and> handler demo (Fin 9) (Fin 10) (NEW_BLOCK demo_block_weak)
         (snd (accept_block demo_block1 [] demo_genesis))
       = (Returned (), snd (accept_block demo_block1 [] demo_genesis))
   \<and> new_block demo (Fin 7) (Fin 8) demo_block1 demo_genesis
       = (Returned (), snd (accept_block demo_block1 [] demo_genesis))
   \<and> new_block demo (Fin 9) (Fin 10) demo_block_weak
         (snd (accept_block demo_block1 [] demo_genesis))
       = (Returned (), snd (accept_block demo_block1 [] demo_genesis))"
proof -
  note i = demo_block1_index and v1 = demo_block1_valid and v2 = demo_block1_valid_render
    and h1 = demo_handler_block1 and h2 = demo_new_block_block1
  have t: "transactions demo_block1 = []" by (simp add: demo_block1_def)
  from same_height_second_rejected [of demo_block1 demo_genesis demo "Fin 7" demo_block_weak
      "Fin 8" "Fin 9" "Fin 10" demo_block_weak] i v1 v2 h1 h2 t
  show ?thesis by (simp add: demo_accept_block1)
qed

text \<open>
  C2. What the two inbound paths do with an accepted block: the block is appended, the
  balances are the result of replaying the block's transactions and nothing else (an
  address that is neither sender nor recipient in the block keeps its balance), and,
  when the replay does not raise, the mempool is emptied and the minted total grows by
  the capped reward. No balance receives the reward, unlike in \<open>mine_pending\<close>, which
  credits it to the miner.
\<close>

theorem inbound_reward_not_credited:
  "(index d = int (length (chain s)) \<and> is_valid_block L n1 d s = Returned True \<longrightarrow>
      (\<exists>s1 b. handler L n1 n2 (NEW_BLOCK d) s
                 = (fst (apply_txs (transactions d) (balances s)), s1)
          \<and> chain s1 = chain s @ [b] \<and> index b = index d \<and> prev_hash b = prev_hash d
          \<and> transactions b = transactions d \<and> nonce b = nonce d \<and> hash b = hash d
          \<and> balances s1 = snd (apply_txs (transactions d) (balances s))
          \<and> (\<forall>x. x \<notin> sender ` set (transactions d) \<and> x \<notin> recipient ` set (transactions d)
                 \<longrightarrow> balance_of (balances s1) x = balance_of (balances s) x)
          \<and> (fst (apply_txs (transactions d) (balances s)) = Returned ()
                \<longrightarrow> pending_tx s1 = []
                   \<and> total_minted s1 = fadd (total_minted s) (reward s))))
   \<and> (is_valid_block_render L n1 d s = Returned True \<longrightarrow>
      (\<exists>s1 b. new_block L n1 n2 d s
                 = (fst (apply_txs (transactions d) (balances s)), s1)
          \<and> chain s1 = chain s @ [b] \<and> index b = index d \<and> prev_hash b = prev_hash d
          \<and> transactions b = transactions d \<and> nonce b = nonce d
          \<and> balances s1 = snd (apply_txs (transactions d) (balances s))
          \<and> (\<forall>x. x \<notin> sender ` set (transactions d) \<and> x \<notin> recipient ` set (transactions d)
                 \<longrightarrow> balance_of (balances s1) x = balance_of (balances s) x)
          \<and> (fst (apply_txs (transactions d) (balances s)) = Returned ()
                \<longrightarrow> pending_tx s1 = []
                   \<and> total_minted s1 = fadd (total_minted s) (reward s))))"
proof -
  have core: "chain s1 = chain s @ [b]
          \<and> r = fst (apply_txs (transactions d) (balances s))
          \<and> balances s1 = snd (apply_txs (transactions d) (balances s))
          \<and> (\<forall>x. x \<notin> sender ` set (transactions d) \<and> x \<notin> recipient ` set (transactions d)
                 \<longrightarrow> balance_of (balances s1) x = balance_of (balances s) x)
          \<and> (fst (apply_txs (transactions d) (balances s)) = Returned ()
                \<longrightarrow> pending_tx s1 = []
                   \<and> total_minted s1 = fadd (total_minted s) (reward s))"
    if "accept_block b (transactions d) s = (r, s1)" for b r s1
    using accept_block_cases [OF that] by (auto simp: balance_of_apply_txs_other)
  have a: "\<exists>s1 b. handler L n1 n2 (NEW_BLOCK d) s
                 = (fst (apply_txs (transactions d) (balances s)), s1)
          \<and> chain s1 = chain s @ [b] \<and> index b = index d \<and> prev_hash b = prev_hash d
          \<and> transactions b = transactions d \<and> nonce b = nonce d \<and> hash b = hash d
          \<and> balances s1 = snd (apply_txs (transactions d) (balances s))
          \<and> (\<forall>x. x \<notin> sender ` set (transactions d) \<and> x \<notin> recipient ` set (transactions d)
                 \<longrightarrow> balance_of (balances s1) x = balance_of (balances s) x)
          \<and> (fst (apply_txs (transactions d) (balances s)) = Returned ()
                \<longrightarrow> pending_tx s1 = []
                   \<and> total_minted s1 = fadd (total_minted s) (reward s))"
    if h: "index d = int (length (chain s))" "is_valid_block L n1 d s = Returned True"
  proof -
    let ?b = "(Block L n2 (index d) (prev_hash d) (transactions d)
                 (Some (timestamp d)) (nonce d))\<lparr>hash := hash d\<rparr>"
    obtain r s1 where acc: "accept_block ?b (transactions d) s = (r, s1)"
      by (cases "accept_block ?b (transactions d) s")
    from core [OF acc] acc show ?thesis
      unfolding handler_accepts [OF h]
      by (intro exI [of _ s1] exI [of _ ?b]) (simp add: Block_fields balance_of_apply_txs_other)
  qed
  have b: "\<exists>s1 b. new_block L n1 n2 d s
                 = (fst (apply_txs (transactions d) (balances s)), s1)
          \<and> chain s1 = chain s @ [b] \<and> index b = index d \<and> prev_hash b = prev_hash d
          \<and> transactions b = transactions d \<and> nonce b = nonce d
          \<and> balances s1 = snd (apply_txs (transactions d) (balances s))
          \<and> (\<forall>x. x \<notin> sender ` set (transactions d) \<and> x \<notin> recipient ` set (transactions d)
                 \<longrightarrow> balance_of (balances s1) x = balance_of (balances s) x)
          \<and> (fst (apply_txs (transactions d) (balances s)) = Returned ()
                \<longrightarrow> pending_tx s1 = []
                   \<and> total_minted s1 = fadd (total_minted s) (reward s))"
    if h: "is_valid_block_render L n1 d s = Returned True"
  proof -
    let ?b = "Block L n2 (index d) (prev_hash d) (transactions d)
                 (Some (timestamp d)) (nonce d)"
    obtain r s1 where acc: "accept_block ?b (transactions d) s = (r, s1)"
      by (cases "accept_block ?b (transactions d) s")
    from core [OF acc] acc show ?thesis
      unfolding new_block_accepts [OF h]
      by (intro exI [of _ s1] exI [of _ ?b]) (simp add: Block_fields balance_of_apply_txs_other)
  qed
  from a b show ?thesis by blast
qed

theorem inbound_reward_not_credited_witness:
  "index demo_block1 = int (length (chain demo_genesis))
   \<and> is_valid_block demo (Fin 7) demo_block1 demo_genesis = Returned True
   \<and> is_valid_block_render demo (Fin 7) demo_block1 demo_genesis = Returned True
   \<and> handler demo (Fin 7) (Fin 8) (NEW_BLOCK demo_block1) demo_genesis
       = (Returned (), \<lparr>chain = chain demo_genesis @ [demo_block1], pending_tx = [],
                         balances = [], total_minted = Fin (25 / 4)\<rparr>)
   \<and> new_block demo (Fin 7) (Fin 8) demo_block1 demo_genesis
       = (Returned (), \<lparr>chain = chain demo_genesis @ [demo_block1], pending_tx = [],
                         balances = [], total_minted = Fin (25 / 4)\<rparr>)
   \<and> balances demo_genesis = []
   \<and> total_minted demo_genesis = Fin 0"
proof -
  have l0: "balances demo_genesis = []" "total_minted demo_genesis = Fin 0"
    by (simp_all add: demo_genesis_eq)
  from inbound_reward_not_credited [of demo_block1 demo_genesis demo "Fin 7" "Fin 8"]
    demo_block1_index(1) demo_block1_valid [of "Fin 7"] demo_block1_valid_render [of "Fin 7"]
    demo_handler_block1 [of "Fin 7" "Fin 8"] demo_new_block_block1 [of "Fin 7" "Fin 8"] l0
  show ?thesis by (simp add: demo_accept_block1)
qed

end
